theory Spec2Isabelle
  imports Main "HOL-Library.Sublist"
begin

section \<open>Test plan generator: data model\<close>

text \<open>
  The generator reads two JSON documents, \<^verbatim>\<open>flagData\<close> (feature-flags.json) and
  \<^verbatim>\<open>testDefs\<close> (test-definitions.json), which are module-level globals in the source.
  Here they are explicit arguments \<open>fd\<close> and \<open>td\<close>. JavaScript strings are modelled as
  \<^typ>\<open>string\<close>; the tokens, separators and keys the generator inspects are ASCII.
\<close>

datatype jsval = JUndefined | JNull | JBool bool | JNum nat | JStr string

datatype applicable = AllProducts | ProductList "string list"

record flagDef =
  flag_key :: string
  flag_name :: string
  applicableProducts :: applicable

record criterion =
  crit_role :: "string option"
  crit_step :: string

record testCriteria =
  whenEnabled :: "criterion list option"
  whenDisabled :: "criterion list option"

record labs =
  orders :: "string list option"
  results :: "string option"

record patientProfile =
  age :: jsval
  sex :: jsval
  location :: jsval
  chiefComplaint :: "string option"
  diagnosis :: "string option"
  profile_labs :: "labs option"
  problemList :: "string option"
  medicalHistory :: "string option"
  antibiotics :: "string option"

record step =
  step_role :: "string option"
  action :: string
  expected :: string

record scenario =
  scenario_key :: string
  scenario_name :: string
  scenario_product :: string
  description :: string
  workflow :: string
  scenario_patientProfile :: "patientProfile option"
  requiredFlags :: "string list option"
  setupSteps :: "step list"
  coreTestSteps :: "step list"

record customer =
  customer_key :: string
  customer_name :: string
  ehr :: string
  customer_products :: "string list"

record productConfig =
  flags :: "string \<rightharpoonup> jsval"
  config_notes :: "string \<rightharpoonup> string"

type_synonym customerConfig = "string \<rightharpoonup> productConfig"

record productDef =
  product_key :: string
  product_name :: string

record flagData =
  products :: "productDef list"
  customers :: "customer list"
  flagDefinitions :: "(string \<times> flagDef list) list"
  configurations :: "string \<rightharpoonup> customerConfig"

record terms =
  flowsheet :: "string option"
  patientList :: "string option"
  alertFlag :: "string option"
  noteType :: "string option"
  orderEntry :: "string option"
  storyboard :: "string option"

record testDefs =
  ehrTerminology :: "string \<rightharpoonup> terms"
  roles :: "string \<rightharpoonup> string"
  flagTestCriteria :: "string \<rightharpoonup> testCriteria"
  scenarios :: "scenario list"

section \<open>JavaScript string primitives\<close>

abbreviation DQUOTE :: char where "DQUOTE \<equiv> CHR 0x22"
abbreviation NEWLINE :: char where "NEWLINE \<equiv> CHR 0x0A"
abbreviation COMMA :: char where "COMMA \<equiv> CHR 0x2C"
abbreviation DOLLAR :: char where "DOLLAR \<equiv> CHR 0x24"
abbreviation LBRACE :: char where "LBRACE \<equiv> CHR 0x7B"
abbreviation RBRACE :: char where "RBRACE \<equiv> CHR 0x7D"

definition digit :: "nat \<Rightarrow> char" where
  "digit d = char_of (48 + d)"

function showNat :: "nat \<Rightarrow> string" where
  "showNat n = (if n < 10 then [digit n] else showNat (n div 10) @ [digit (n mod 10)])"
  by pat_completeness auto
termination
  by (relation "measure id") auto

text \<open>\<^verbatim>\<open>String(val)\<close>, also what a template literal does to an interpolated value.\<close>

fun jsString :: "jsval \<Rightarrow> string" where
  "jsString JUndefined = ''undefined''"
| "jsString JNull = ''null''"
| "jsString (JBool b) = (if b then ''true'' else ''false'')"
| "jsString (JNum n) = showNat n"
| "jsString (JStr s) = s"

text \<open>\<^verbatim>\<open>Array.prototype.join\<close> on an array of strings.\<close>

fun join :: "string \<Rightarrow> string list \<Rightarrow> string" where
  "join sep [] = []"
| "join sep [x] = x"
| "join sep (x # y # ys) = x @ sep @ join sep (y # ys)"

text \<open>\<^verbatim>\<open>String.prototype.includes\<close>: the argument occurs as a contiguous substring.\<close>

fun strIncludes :: "string \<Rightarrow> string \<Rightarrow> bool" where
  "strIncludes [] sub = (sub = [])"
| "strIncludes (c # cs) sub = (prefix sub (c # cs) \<or> strIncludes cs sub)"

text \<open>
  \<^verbatim>\<open>GetSubstitution\<close> of ECMAScript for a pattern without capture groups: in the
  replacement text \<^verbatim>\<open>$$\<close> is a dollar, \<^verbatim>\<open>$&\<close> the matched text, \<^verbatim>\<open>$`\<close> the text before
  the match and \<^verbatim>\<open>$'\<close> the text after it; any other dollar is literal.
\<close>

fun getSubstitution :: "string \<Rightarrow> string \<Rightarrow> string \<Rightarrow> string \<Rightarrow> string" where
  "getSubstitution m b a [] = []"
| "getSubstitution m b a [c] = [c]"
| "getSubstitution m b a (c # d # r) =
     (if c = DOLLAR then
        (if d = DOLLAR then DOLLAR # getSubstitution m b a r
         else if d = CHR ''&'' then m @ getSubstitution m b a r
         else if d = CHR 0x60 then b @ getSubstitution m b a r
         else if d = CHR 0x27 then a @ getSubstitution m b a r
         else DOLLAR # getSubstitution m b a (d # r))
      else c # getSubstitution m b a (d # r))"

text \<open>
  \<^verbatim>\<open>text.replace(/pat/g, repl)\<close> for a pattern that is a literal, non-empty text: the
  matches are found from left to right without overlap, \<open>pre\<close> is the part of the
  subject already scanned. (An empty literal is not a pattern of the source; the model
  leaves the subject as it is.)
\<close>

function replaceAll :: "string \<Rightarrow> string \<Rightarrow> string \<Rightarrow> string \<Rightarrow> string" where
  "replaceAll pat repl pre s =
     (if s = [] then []
      else if pat \<noteq> [] \<and> prefix pat s then
        getSubstitution pat pre (drop (length pat) s) repl
          @ replaceAll pat repl (pre @ pat) (drop (length pat) s)
      else hd s # replaceAll pat repl (pre @ [hd s]) (tl s))"
  by pat_completeness auto
termination
  by (relation "measure (\<lambda>(pat, repl, pre, s). length s)") (auto simp: prefix_def)

definition replace :: "string \<Rightarrow> string \<Rightarrow> string \<Rightarrow> string" where
  "replace pat repl s = replaceAll pat repl [] s"

section \<open>CSV helpers\<close>

fun csvEscape :: "jsval \<Rightarrow> string" where
  "csvEscape JNull = []"
| "csvEscape JUndefined = []"
| "csvEscape v =
     (let s = jsString v in
      if COMMA \<in> set s \<or> DQUOTE \<in> set s \<or> NEWLINE \<in> set s
      then [DQUOTE] @ concat (map (\<lambda>c. if c = DQUOTE then [DQUOTE, DQUOTE] else [c]) s) @ [DQUOTE]
      else s)"

definition csvRow :: "jsval list \<Rightarrow> string" where
  "csvRow values = join [COMMA] (map csvEscape values)"

section \<open>Resolvers\<close>

text \<open>
  \<^verbatim>\<open>testDefs.ehrTerminology[ehr] || testDefs.ehrTerminology["Epic"]\<close>. When the table has
  neither entry the value is \<^verbatim>\<open>undefined\<close> and reading a term from it throws: \<open>None\<close>.
\<close>

definition ehrTerms :: "testDefs \<Rightarrow> string \<Rightarrow> terms option" where
  "ehrTerms td e =
     (case ehrTerminology td e of Some t \<Rightarrow> Some t | None \<Rightarrow> ehrTerminology td ''Epic'')"

text \<open>A replacement value that is \<^verbatim>\<open>undefined\<close> is converted to the text "undefined".\<close>

definition termText :: "string option \<Rightarrow> string" where
  "termText t = (case t of Some s \<Rightarrow> s | None \<Rightarrow> ''undefined'')"

definition applyTerms :: "terms \<Rightarrow> string \<Rightarrow> string" where
  "applyTerms t text =
     replace ''{storyboard}'' (termText (storyboard t))
      (replace ''{orderEntry}'' (termText (orderEntry t))
        (replace ''{noteType}'' (termText (noteType t))
          (replace ''{alertFlag}'' (termText (alertFlag t))
            (replace ''{patientList}'' (termText (patientList t))
              (replace ''{flowsheet}'' (termText (flowsheet t)) text)))))"

definition resolveEhrTerms :: "testDefs \<Rightarrow> string \<Rightarrow> string \<Rightarrow> string option" where
  "resolveEhrTerms td text e =
     (case ehrTerms td e of None \<Rightarrow> None | Some t \<Rightarrow> Some (applyTerms t text))"

definition roleLabel :: "testDefs \<Rightarrow> string option \<Rightarrow> string" where
  "roleLabel td roleKey =
     (case roleKey of
        None \<Rightarrow> ''--''
      | Some k \<Rightarrow>
          if k = [] then ''--''
          else (case roles td k of Some label \<Rightarrow> label | None \<Rightarrow> k))"

text \<open>\<^verbatim>\<open>x || ""\<close> for an optional string.\<close>

definition orEmpty :: "string option \<Rightarrow> string" where
  "orEmpty x = (case x of Some s \<Rightarrow> s | None \<Rightarrow> [])"

definition labOrders :: "patientProfile option \<Rightarrow> string" where
  "labOrders p =
     (case p of
        None \<Rightarrow> []
      | Some pr \<Rightarrow>
          (case profile_labs pr of
             None \<Rightarrow> []
           | Some l \<Rightarrow> (case orders l of None \<Rightarrow> [] | Some os \<Rightarrow> join '', '' os)))"

definition labResults :: "patientProfile option \<Rightarrow> string" where
  "labResults p =
     (case p of
        None \<Rightarrow> []
      | Some pr \<Rightarrow> (case profile_labs pr of None \<Rightarrow> [] | Some l \<Rightarrow> orEmpty (results l)))"

definition profileField :: "patientProfile option \<Rightarrow> (patientProfile \<Rightarrow> string option) \<Rightarrow> string" where
  "profileField p f = (case p of None \<Rightarrow> [] | Some pr \<Rightarrow> orEmpty (f pr))"

definition resolveTemplateVars :: "string \<Rightarrow> scenario \<Rightarrow> string" where
  "resolveTemplateVars text sc =
     (let profile = scenario_patientProfile sc in
      replace ''{antibiotics}'' (profileField profile antibiotics)
       (replace ''{medicalHistory}'' (profileField profile medicalHistory)
         (replace ''{problemList}'' (profileField profile problemList)
           (replace ''{labResults}'' (labResults profile)
             (replace ''{labOrders}'' (labOrders profile)
               (replace ''{diagnosis}'' (profileField profile diagnosis)
                 (replace ''{chiefComplaint}'' (profileField profile chiefComplaint) text)))))))"

section \<open>Applicability filter and flag test selector\<close>

fun requiredLoop :: "productConfig \<Rightarrow> string list \<Rightarrow> bool" where
  "requiredLoop pc [] = True"
| "requiredLoop pc (flagKey # rest) =
     (if flags pc flagKey \<noteq> Some (JBool True) then False else requiredLoop pc rest)"

definition scenarioApplies :: "scenario \<Rightarrow> customer \<Rightarrow> customerConfig option \<Rightarrow> bool" where
  "scenarioApplies sc c cfg =
     (if scenario_product sc \<notin> set (customer_products c) then False
      else
        (case requiredFlags sc of
           None \<Rightarrow> True
         | Some rf \<Rightarrow>
             if length rf > 0 then
               (case (case cfg of None \<Rightarrow> None | Some m \<Rightarrow> m (scenario_product sc)) of
                  None \<Rightarrow> False
                | Some pc \<Rightarrow> requiredLoop pc rf)
             else True))"

record flagTest =
  ft_flag :: flagDef
  ft_criteria :: "criterion list"
  ft_category :: string

record flagTests =
  enabled :: "flagTest list"
  disabled :: "flagTest list"

definition productApplies :: "flagDef \<Rightarrow> string \<Rightarrow> bool" where
  "productApplies f productKey =
     (case applicableProducts f of AllProducts \<Rightarrow> True | ProductList ps \<Rightarrow> productKey \<in> set ps)"

fun flagLoop :: "testDefs \<Rightarrow> productConfig \<Rightarrow> string \<Rightarrow> string \<Rightarrow> flagDef list \<Rightarrow> flagTests \<Rightarrow> flagTests" where
  "flagLoop td pc productKey catKey [] acc = acc"
| "flagLoop td pc productKey catKey (f # rest) acc =
     (if \<not> productApplies f productKey then flagLoop td pc productKey catKey rest acc
      else
        (case flagTestCriteria td (flag_key f) of
           None \<Rightarrow> flagLoop td pc productKey catKey rest acc
         | Some tc \<Rightarrow>
             (let v = flags pc (flag_key f) in
              if v = Some (JBool True) then
                (case whenEnabled tc of
                   Some cr \<Rightarrow>
                     flagLoop td pc productKey catKey rest
                       (acc\<lparr>enabled := enabled acc @ [\<lparr>ft_flag = f, ft_criteria = cr, ft_category = catKey\<rparr>]\<rparr>)
                 | None \<Rightarrow> flagLoop td pc productKey catKey rest acc)
              else if v = Some (JBool False) then
                (case whenDisabled tc of
                   Some cr \<Rightarrow>
                     flagLoop td pc productKey catKey rest
                       (acc\<lparr>disabled := disabled acc @ [\<lparr>ft_flag = f, ft_criteria = cr, ft_category = catKey\<rparr>]\<rparr>)
                 | None \<Rightarrow> flagLoop td pc productKey catKey rest acc)
              else flagLoop td pc productKey catKey rest acc)))"

fun categoryLoop :: "testDefs \<Rightarrow> productConfig \<Rightarrow> string \<Rightarrow> (string \<times> flagDef list) list \<Rightarrow> flagTests \<Rightarrow> flagTests" where
  "categoryLoop td pc productKey [] acc = acc"
| "categoryLoop td pc productKey ((catKey, catFlags) # rest) acc =
     categoryLoop td pc productKey rest (flagLoop td pc productKey catKey catFlags acc)"

definition getFlagTests :: "testDefs \<Rightarrow> flagData \<Rightarrow> customer \<Rightarrow> string \<Rightarrow> customerConfig option \<Rightarrow> flagTests" where
  "getFlagTests td fd c productKey cfg =
     (case (case cfg of None \<Rightarrow> None | Some m \<Rightarrow> m productKey) of
        None \<Rightarrow> \<lparr>enabled = [], disabled = []\<rparr>
      | Some pc \<Rightarrow>
          categoryLoop td pc productKey (flagDefinitions fd) \<lparr>enabled = [], disabled = []\<rparr>)"

section \<open>Category label and product name\<close>

fun splitOn :: "char \<Rightarrow> string \<Rightarrow> string list" where
  "splitOn sep [] = [[]]"
| "splitOn sep (c # cs) =
     (if c = sep then [] # splitOn sep cs
      else (case splitOn sep cs of [] \<Rightarrow> [[c]] | w # ws \<Rightarrow> (c # w) # ws))"

text \<open>\<^verbatim>\<open>toUpperCase\<close> on one character; category keys are ASCII identifiers.\<close>

definition upperChar :: "char \<Rightarrow> char" where
  "upperChar c =
     (let n = (of_char c :: nat) in if 97 \<le> n \<and> n \<le> 122 then char_of (n - 32) else c)"

definition capitalize :: "string \<Rightarrow> string" where
  "capitalize w = (case w of [] \<Rightarrow> [] | c # r \<Rightarrow> upperChar c # r)"

definition categoryLabel :: "string \<Rightarrow> string" where
  "categoryLabel catKey = join '' '' (map capitalize (splitOn (CHR ''_'') catKey))"

definition productName :: "flagData \<Rightarrow> string \<Rightarrow> string" where
  "productName fd productKey =
     (case find (\<lambda>p. product_key p = productKey) (products fd) of
        None \<Rightarrow> productKey
      | Some p \<Rightarrow> if product_name p = [] then productKey else product_name p)"

section \<open>Test plan assembler\<close>

text \<open>
  The state of \<^verbatim>\<open>generateTestPlan\<close>: the counter \<^verbatim>\<open>stepNum\<close> and the array \<^verbatim>\<open>rows\<close>.
  The source pushes \<^verbatim>\<open>csvRow(values)\<close>; the state below keeps the nine values of each
  row and \<open>generateTestPlan\<close> serialises them when it joins the rows, which is the same
  text. A result \<open>None\<close> is the exception of a failed terminology lookup.
\<close>

record genState =
  stepNum :: nat
  rows :: "jsval list list"

definition push :: "jsval list \<Rightarrow> genState \<Rightarrow> genState" where
  "push r st = st\<lparr>rows := rows st @ [r]\<rparr>"

definition incr :: "genState \<Rightarrow> genState" where
  "incr st = st\<lparr>stepNum := Suc (stepNum st)\<rparr>"

definition headerRow :: "jsval list" where
  "headerRow =
     [JStr ''Test Step #'', JStr ''Section'', JStr ''Scenario / Flag'', JStr ''User'',
      JStr ''Test Step Description'', JStr ''Expected Result'', JStr ''Test Result'',
      JStr ''Pass/Fail'', JStr ''Description of failure/issues'']"

definition scenarioHeaderRow :: "scenario \<Rightarrow> jsval list" where
  "scenarioHeaderRow sc =
     [JStr [], JStr ''SCENARIO'', JStr (''=== '' @ scenario_name sc @ '' ===''), JStr [],
      JStr (description sc), JStr (''Workflow: '' @ workflow sc), JStr [], JStr [], JStr []]"

definition patientRow :: "scenario \<Rightarrow> patientProfile \<Rightarrow> jsval list" where
  "patientRow sc p =
     [JStr [], JStr ''PATIENT SETUP'', JStr (scenario_name sc), JStr [],
      JStr (''Test Patient: Age '' @ jsString (age p) @ '', '' @ jsString (sex p) @ '', ''
            @ jsString (location p) @ ''. Chief Complaint: ''
            @ (case chiefComplaint p of None \<Rightarrow> ''N/A'' | Some s \<Rightarrow> if s = [] then ''N/A'' else s)),
      JStr [], JStr [], JStr [], JStr []]"

text \<open>
  The loops over \<^verbatim>\<open>scenario.setupSteps\<close> (section "Setup") and
  \<^verbatim>\<open>scenario.coreTestSteps\<close> (section "Bayesian UI Test") have the same body.
\<close>

fun stepLoop :: "testDefs \<Rightarrow> string \<Rightarrow> scenario \<Rightarrow> string \<Rightarrow> step list \<Rightarrow> genState \<Rightarrow> genState option" where
  "stepLoop td e sc section [] st = Some st"
| "stepLoop td e sc section (s # rest) st =
     (let st1 = incr st in
      case resolveEhrTerms td (resolveTemplateVars (action s) sc) e of
        None \<Rightarrow> None
      | Some act \<Rightarrow>
          (case resolveEhrTerms td (resolveTemplateVars (expected s) sc) e of
             None \<Rightarrow> None
           | Some exp \<Rightarrow>
               stepLoop td e sc section rest
                 (push [JNum (stepNum st1), JStr section, JStr (scenario_name sc),
                        JStr (roleLabel td (step_role s)), JStr act, JStr exp,
                        JStr [], JStr [], JStr []] st1)))"

definition relevantCategories :: "scenario \<Rightarrow> string set" where
  "relevantCategories sc =
     (let k = scenario_key sc;
          r0 = {};
          r1 = (if strIncludes k ''sepsis_ed'' \<or> strIncludes k ''septic_shock'' then
                  (let a = insert ''regulatory'' (insert ''documentation'' (insert ''assessment_writeback'' r0))
                   in if (case requiredFlags sc of None \<Rightarrow> False | Some rf \<Rightarrow> ''bundle_tracking'' \<in> set rf)
                      then insert ''bundle_manager'' a else a)
                else r0);
          r2 = (if k = ''no_sepsis_no_infection''
                then insert ''contributing_factors'' (insert ''assessment_writeback'' r1) else r1);
          r3 = (if k = ''abx_workflow'' then insert ''suppression'' r2 else r2);
          r4 = (if k = ''comfort_care_suppression'' then insert ''suppression'' r3 else r3);
          r5 = (if k = ''septic_shock_rnf_to_icu''
                then insert ''contributing_factors'' (insert ''assessment_writeback'' r4) else r4)
      in r5)"

text \<open>
  The loop over a flag test's criteria: section "Flag Verification" with expected result
  "VERIFY" in Part 1, section "Absence Test" with "VERIFY ABSENT" in Part 2.
\<close>

fun criteriaLoop :: "testDefs \<Rightarrow> string \<Rightarrow> string \<Rightarrow> string \<Rightarrow> flagTest \<Rightarrow> criterion list \<Rightarrow> genState \<Rightarrow> genState option" where
  "criteriaLoop td e section verdict ft [] st = Some st"
| "criteriaLoop td e section verdict ft (cr # rest) st =
     (let st1 = incr st in
      case resolveEhrTerms td (crit_step cr) e of
        None \<Rightarrow> None
      | Some stepText \<Rightarrow>
          criteriaLoop td e section verdict ft rest
            (push [JNum (stepNum st1), JStr section,
                   JStr (flag_name (ft_flag ft) @ '' ['' @ flag_key (ft_flag ft) @ '']''),
                   JStr (roleLabel td (crit_role cr)), JStr stepText, JStr verdict,
                   JStr [], JStr [], JStr []] st1))"

fun flagTestLoop :: "testDefs \<Rightarrow> string \<Rightarrow> flagTest list \<Rightarrow> genState \<Rightarrow> genState option" where
  "flagTestLoop td e [] st = Some st"
| "flagTestLoop td e (ft # rest) st =
     (case criteriaLoop td e ''Flag Verification'' ''VERIFY'' ft (ft_criteria ft) st of
        None \<Rightarrow> None
      | Some st1 \<Rightarrow> flagTestLoop td e rest st1)"

definition flagVerificationRow :: "scenario \<Rightarrow> jsval list" where
  "flagVerificationRow sc =
     [JStr [], JStr ''FLAG VERIFICATION'', JStr (scenario_name sc), JStr [],
      JStr ''--- Feature-specific verification steps (auto-generated from enabled flags) ---'',
      JStr [], JStr [], JStr [], JStr []]"

definition scenarioFlagTests :: "testDefs \<Rightarrow> flagData \<Rightarrow> customer \<Rightarrow> customerConfig option \<Rightarrow> scenario \<Rightarrow> flagTest list" where
  "scenarioFlagTests td fd c cfg sc =
     filter (\<lambda>f. ft_category f \<in> relevantCategories sc)
       (enabled (getFlagTests td fd c (scenario_product sc) cfg))"

text \<open>The body of the loop over \<^verbatim>\<open>testDefs.scenarios\<close> for a scenario that applies.\<close>

definition scenarioBlock :: "testDefs \<Rightarrow> flagData \<Rightarrow> customer \<Rightarrow> customerConfig option \<Rightarrow> scenario \<Rightarrow> genState \<Rightarrow> genState option" where
  "scenarioBlock td fd c cfg sc st =
     (let st1 = push (scenarioHeaderRow sc) (incr st);
          st2 = (case scenario_patientProfile sc of
                   None \<Rightarrow> st1
                 | Some p \<Rightarrow> push (patientRow sc p) (incr st1))
      in case stepLoop td (ehr c) sc ''Setup'' (setupSteps sc) st2 of
           None \<Rightarrow> None
         | Some st3 \<Rightarrow>
             (case stepLoop td (ehr c) sc ''Bayesian UI Test'' (coreTestSteps sc) st3 of
                None \<Rightarrow> None
              | Some st4 \<Rightarrow>
                  (let fts = scenarioFlagTests td fd c cfg sc in
                   if length fts > 0
                   then flagTestLoop td (ehr c) fts (push (flagVerificationRow sc) st4)
                   else Some st4)))"

fun scenarioLoop :: "testDefs \<Rightarrow> flagData \<Rightarrow> customer \<Rightarrow> customerConfig option \<Rightarrow> scenario list \<Rightarrow> genState \<Rightarrow> genState option" where
  "scenarioLoop td fd c cfg [] st = Some st"
| "scenarioLoop td fd c cfg (sc # rest) st =
     (if \<not> scenarioApplies sc c cfg then scenarioLoop td fd c cfg rest st
      else (case scenarioBlock td fd c cfg sc st of
              None \<Rightarrow> None
            | Some st1 \<Rightarrow> scenarioLoop td fd c cfg rest st1))"

definition absenceHeaderRow :: "flagData \<Rightarrow> string \<Rightarrow> jsval list" where
  "absenceHeaderRow fd productKey =
     [JStr [], JStr ''ABSENCE TESTS'',
      JStr (''=== '' @ productName fd productKey @ '': Disabled Flag Verification ===''), JStr [],
      JStr ''Verify that disabled features do NOT appear in the application'',
      JStr [], JStr [], JStr [], JStr []]"

definition categoryRow :: "string \<Rightarrow> jsval list" where
  "categoryRow cat =
     [JStr [], JStr ''Absence Test'', JStr (''--- '' @ categoryLabel cat @ '' ---''), JStr [],
      JStr [], JStr [], JStr [], JStr [], JStr []]"

text \<open>The loop over \<^verbatim>\<open>disabledFlags\<close>; \<open>cur\<close> is \<^verbatim>\<open>currentCategory\<close>, \<open>None\<close> for \<^verbatim>\<open>null\<close>.\<close>

fun absenceLoop :: "testDefs \<Rightarrow> string \<Rightarrow> string option \<Rightarrow> flagTest list \<Rightarrow> genState \<Rightarrow> genState option" where
  "absenceLoop td e cur [] st = Some st"
| "absenceLoop td e cur (ft # rest) st =
     (let st1 = (if Some (ft_category ft) \<noteq> cur then push (categoryRow (ft_category ft)) st else st)
      in case criteriaLoop td e ''Absence Test'' ''VERIFY ABSENT'' ft (ft_criteria ft) st1 of
           None \<Rightarrow> None
         | Some st2 \<Rightarrow> absenceLoop td e (Some (ft_category ft)) rest st2)"

fun productLoop :: "testDefs \<Rightarrow> flagData \<Rightarrow> customer \<Rightarrow> customerConfig option \<Rightarrow> string list \<Rightarrow> genState \<Rightarrow> genState option" where
  "productLoop td fd c cfg [] st = Some st"
| "productLoop td fd c cfg (productKey # rest) st =
     (let disabledFlags = disabled (getFlagTests td fd c productKey cfg) in
      if length disabledFlags > 0 then
        (case absenceLoop td (ehr c) None disabledFlags (push (absenceHeaderRow fd productKey) st) of
           None \<Rightarrow> None
         | Some st1 \<Rightarrow> productLoop td fd c cfg rest st1)
      else productLoop td fd c cfg rest st)"

definition part1 :: "testDefs \<Rightarrow> flagData \<Rightarrow> customer \<Rightarrow> genState option" where
  "part1 td fd c =
     scenarioLoop td fd c (configurations fd (customer_key c)) (scenarios td)
       \<lparr>stepNum = 0, rows = [headerRow]\<rparr>"

definition planState :: "testDefs \<Rightarrow> flagData \<Rightarrow> customer \<Rightarrow> genState option" where
  "planState td fd c =
     (case part1 td fd c of
        None \<Rightarrow> None
      | Some st \<Rightarrow> productLoop td fd c (configurations fd (customer_key c)) (customer_products c) st)"

definition planRows :: "testDefs \<Rightarrow> flagData \<Rightarrow> customer \<Rightarrow> jsval list list option" where
  "planRows td fd c = map_option rows (planState td fd c)"

definition generateTestPlan :: "testDefs \<Rightarrow> flagData \<Rightarrow> customer \<Rightarrow> string option" where
  "generateTestPlan td fd c =
     map_option (\<lambda>rs. join [NEWLINE] (map csvRow rs)) (planRows td fd c)"

section \<open>The rules of the specification\<close>

text \<open>
  The definitions of this section follow the wording of the specification; the
  theorems below compare them with the functions translated from the source.
\<close>

definition configBlock :: "customerConfig option \<Rightarrow> string \<Rightarrow> productConfig option" where
  "configBlock cfg productKey = (case cfg of None \<Rightarrow> None | Some m \<Rightarrow> m productKey)"

text \<open>The configured value of a flag for (customer, product): a value, or absent.\<close>

definition configuredValue :: "customerConfig option \<Rightarrow> string \<Rightarrow> string \<Rightarrow> jsval option" where
  "configuredValue cfg productKey flagKey =
     (case configBlock cfg productKey of None \<Rightarrow> None | Some pc \<Rightarrow> flags pc flagKey)"

text \<open>
  The entry one flag definition contributes to a bucket: \<open>v\<close> is the value the bucket
  asks for and \<open>side\<close> the criteria list it reads (\<open>True\<close> and \<open>whenEnabled\<close> for
  the enabled bucket, \<open>False\<close> and \<open>whenDisabled\<close> for the disabled one).
\<close>

definition selectFlag :: "testDefs \<Rightarrow> string \<Rightarrow> (string \<Rightarrow> jsval option) \<Rightarrow> bool \<Rightarrow> (testCriteria \<Rightarrow> criterion list option) \<Rightarrow> string \<Rightarrow> flagDef \<Rightarrow> flagTest list" where
  "selectFlag td productKey val v side cat f =
     (if (case applicableProducts f of AllProducts \<Rightarrow> True | ProductList ps \<Rightarrow> productKey \<in> set ps) then
        (case flagTestCriteria td (flag_key f) of
           None \<Rightarrow> []
         | Some tc \<Rightarrow>
             if val (flag_key f) = Some (JBool v) then
               (case side tc of
                  None \<Rightarrow> []
                | Some cr \<Rightarrow> [\<lparr>ft_flag = f, ft_criteria = cr, ft_category = cat\<rparr>])
             else [])
      else [])"

definition selectSide :: "testDefs \<Rightarrow> flagData \<Rightarrow> string \<Rightarrow> customerConfig option \<Rightarrow> bool \<Rightarrow> (testCriteria \<Rightarrow> criterion list option) \<Rightarrow> flagTest list" where
  "selectSide td fd productKey cfg v side =
     concat (map (\<lambda>(cat, fs). concat (map (selectFlag td productKey (configuredValue cfg productKey) v side cat) fs))
       (flagDefinitions fd))"

text \<open>The relevance gate as the specification words it: three rules, their categories united.\<close>

definition gateCategories :: "scenario \<Rightarrow> string set" where
  "gateCategories sc =
     (let k = scenario_key sc in
      (if strIncludes k ''sepsis_ed'' \<or> strIncludes k ''septic_shock''
       then {''assessment_writeback'', ''documentation'', ''regulatory''}
            \<union> (if (\<exists>rf. requiredFlags sc = Some rf \<and> ''bundle_tracking'' \<in> set rf)
               then {''bundle_manager''} else {})
       else {})
      \<union> (if k = ''no_sepsis_no_infection'' \<or> k = ''septic_shock_rnf_to_icu''
         then {''assessment_writeback'', ''contributing_factors''} else {})
      \<union> (if k = ''abx_workflow'' \<or> k = ''comfort_care_suppression''
         then {''suppression''} else {}))"

text \<open>A scenario that none of the rules of the gate matches.\<close>

definition gateUnmatched :: "scenario \<Rightarrow> bool" where
  "gateUnmatched sc =
     (let k = scenario_key sc in
      \<not> strIncludes k ''sepsis_ed'' \<and> \<not> strIncludes k ''septic_shock''
      \<and> k \<noteq> ''no_sepsis_no_infection'' \<and> k \<noteq> ''septic_shock_rnf_to_icu''
      \<and> k \<noteq> ''abx_workflow'' \<and> k \<noteq> ''comfort_care_suppression'')"

section \<open>Rows and the running counter\<close>

text \<open>
  A row to be emitted is its eight cells after the step number together with the way it
  treats the counter: \<open>Numbered\<close> rows increment the counter and show it, \<open>Consumes\<close>
  rows increment the counter and leave the first cell blank, \<open>Plain\<close> rows leave the
  counter alone and the first cell blank. \<open>numberRows n\<close> fills in the first cells for
  a counter that stands at \<open>n\<close>.
\<close>

datatype rowKind = Numbered | Consumes | Plain

fun numberRows :: "nat \<Rightarrow> (rowKind \<times> jsval list) list \<Rightarrow> jsval list list" where
  "numberRows n [] = []"
| "numberRows n ((Numbered, cells) # rest) = (JNum (Suc n) # cells) # numberRows (Suc n) rest"
| "numberRows n ((Consumes, cells) # rest) = (JStr [] # cells) # numberRows (Suc n) rest"
| "numberRows n ((Plain, cells) # rest) = (JStr [] # cells) # numberRows n rest"

definition counted :: "(rowKind \<times> jsval list) list \<Rightarrow> nat" where
  "counted trs = length (filter (\<lambda>tr. fst tr \<noteq> Plain) trs)"

definition emit :: "(rowKind \<times> jsval list) list \<Rightarrow> genState \<Rightarrow> genState" where
  "emit trs st = \<lparr>stepNum = stepNum st + counted trs, rows = rows st @ numberRows (stepNum st) trs\<rparr>"

definition stepCells :: "testDefs \<Rightarrow> terms \<Rightarrow> scenario \<Rightarrow> string \<Rightarrow> step \<Rightarrow> jsval list" where
  "stepCells td tm sc section s =
     [JStr section, JStr (scenario_name sc), JStr (roleLabel td (step_role s)),
      JStr (applyTerms tm (resolveTemplateVars (action s) sc)),
      JStr (applyTerms tm (resolveTemplateVars (expected s) sc)),
      JStr [], JStr [], JStr []]"

definition criterionCells :: "testDefs \<Rightarrow> terms \<Rightarrow> string \<Rightarrow> string \<Rightarrow> flagTest \<Rightarrow> criterion \<Rightarrow> jsval list" where
  "criterionCells td tm section verdict ft cr =
     [JStr section, JStr (flag_name (ft_flag ft) @ '' ['' @ flag_key (ft_flag ft) @ '']''),
      JStr (roleLabel td (crit_role cr)), JStr (applyTerms tm (crit_step cr)), JStr verdict,
      JStr [], JStr [], JStr []]"

text \<open>One row per criterion of a flag test.\<close>

definition flagTestCells :: "testDefs \<Rightarrow> terms \<Rightarrow> string \<Rightarrow> string \<Rightarrow> flagTest \<Rightarrow> (rowKind \<times> jsval list) list" where
  "flagTestCells td tm section verdict ft =
     map (\<lambda>cr. (Numbered, criterionCells td tm section verdict ft cr)) (ft_criteria ft)"

text \<open>The rows of one scenario's block, for the flag tests \<open>fts\<close> attached to it.\<close>

definition scenarioCells :: "testDefs \<Rightarrow> terms \<Rightarrow> scenario \<Rightarrow> flagTest list \<Rightarrow> (rowKind \<times> jsval list) list" where
  "scenarioCells td tm sc fts =
     (Consumes, tl (scenarioHeaderRow sc))
     # (case scenario_patientProfile sc of None \<Rightarrow> [] | Some p \<Rightarrow> [(Consumes, tl (patientRow sc p))])
     @ map (\<lambda>s. (Numbered, stepCells td tm sc ''Setup'' s)) (setupSteps sc)
     @ map (\<lambda>s. (Numbered, stepCells td tm sc ''Bayesian UI Test'' s)) (coreTestSteps sc)
     @ (if fts = [] then []
        else (Plain, tl (flagVerificationRow sc))
             # concat (map (flagTestCells td tm ''Flag Verification'' ''VERIFY'') fts))"

text \<open>
  The rows of a list of disabled-flag tests: each test is paired with the category of the
  test before it (\<open>cur\<close> for the first), and a category sub-header precedes a test
  whenever its category differs from that one.
\<close>

definition absenceGroup :: "testDefs \<Rightarrow> terms \<Rightarrow> string option \<Rightarrow> flagTest list \<Rightarrow> (rowKind \<times> jsval list) list" where
  "absenceGroup td tm cur fts =
     concat (map (\<lambda>(prev, ft).
                (if Some (ft_category ft) \<noteq> prev then [(Plain, tl (categoryRow (ft_category ft)))] else [])
                @ flagTestCells td tm ''Absence Test'' ''VERIFY ABSENT'' ft)
             (zip (cur # map (\<lambda>ft. Some (ft_category ft)) fts) fts))"

text \<open>The absence block of one product, for its disabled-flag tests \<open>fts\<close>.\<close>

definition absenceCells :: "testDefs \<Rightarrow> flagData \<Rightarrow> terms \<Rightarrow> string \<Rightarrow> flagTest list \<Rightarrow> (rowKind \<times> jsval list) list" where
  "absenceCells td fd tm productKey fts =
     (if fts = [] then []
      else (Plain, tl (absenceHeaderRow fd productKey)) # absenceGroup td tm None fts)"

definition part1Cells :: "testDefs \<Rightarrow> flagData \<Rightarrow> customer \<Rightarrow> terms \<Rightarrow> (rowKind \<times> jsval list) list" where
  "part1Cells td fd c tm =
     (let cfg = configurations fd (customer_key c) in
      concat (map (\<lambda>sc. scenarioCells td tm sc (scenarioFlagTests td fd c cfg sc))
                (filter (\<lambda>sc. scenarioApplies sc c cfg) (scenarios td))))"

definition part2Cells :: "testDefs \<Rightarrow> flagData \<Rightarrow> customer \<Rightarrow> terms \<Rightarrow> (rowKind \<times> jsval list) list" where
  "part2Cells td fd c tm =
     (let cfg = configurations fd (customer_key c) in
      concat (map (\<lambda>pk. absenceCells td fd tm pk (disabled (getFlagTests td fd c pk cfg)))
                (customer_products c)))"

section \<open>The plan as the specification words it\<close>

text \<open>
  Part 2 as the specification words it, for the products taken in the order
  \<open>productOrder\<close>: per product the disabled-flag tests of the selector, a section header
  when there are any, the category sub-headers and one numbered row per criterion.
\<close>

definition absencePlan :: "testDefs \<Rightarrow> flagData \<Rightarrow> customer \<Rightarrow> terms \<Rightarrow> string list \<Rightarrow> (rowKind \<times> jsval list) list" where
  "absencePlan td fd c tm productOrder =
     concat (map (\<lambda>pk. absenceCells td fd tm pk
                          (selectSide td fd pk (configurations fd (customer_key c)) False whenDisabled))
               productOrder)"

text \<open>The products a customer owns, in the order of the product catalog.\<close>

definition catalogOrder :: "flagData \<Rightarrow> customer \<Rightarrow> string list" where
  "catalogOrder fd c =
     filter (\<lambda>pk. pk \<in> set (customer_products c)) (map product_key (products fd))"

text \<open>
  What Part 2 of a run adds: the counter as Part 1 left it, and the rows pushed after
  Part 1.
\<close>

definition part2Rows :: "testDefs \<Rightarrow> flagData \<Rightarrow> customer \<Rightarrow> (nat \<times> jsval list list) option" where
  "part2Rows td fd c =
     (case part1 td fd c of
        None \<Rightarrow> None
      | Some st1 \<Rightarrow>
          (case planState td fd c of
             None \<Rightarrow> None
           | Some st2 \<Rightarrow> Some (stepNum st1, drop (length (rows st1)) (rows st2))))"

definition part2Follows :: "testDefs \<Rightarrow> flagData \<Rightarrow> customer \<Rightarrow> terms \<Rightarrow> string list \<Rightarrow> bool option" where
  "part2Follows td fd c tm productOrder =
     map_option (\<lambda>(n, rs). rs = numberRows n (absencePlan td fd c tm productOrder))
       (part2Rows td fd c)"

text \<open>
  The plan of a customer without any configuration, as the specification words it: the
  header row, then for every scenario whose product the customer owns and whose
  \<open>requiredFlags\<close> is absent or empty the block without a Flag Verification section.
\<close>

definition unconfiguredScenarios :: "testDefs \<Rightarrow> customer \<Rightarrow> scenario list" where
  "unconfiguredScenarios td c =
     filter (\<lambda>sc. scenario_product sc \<in> set (customer_products c)
                  \<and> (requiredFlags sc = None \<or> requiredFlags sc = Some []))
       (scenarios td)"

definition unconfiguredPlan :: "testDefs \<Rightarrow> customer \<Rightarrow> terms \<Rightarrow> jsval list list" where
  "unconfiguredPlan td c tm =
     headerRow # numberRows 0 (concat (map (\<lambda>sc. scenarioCells td tm sc []) (unconfiguredScenarios td c)))"

definition flagSections :: "jsval set" where
  "flagSections =
     {JStr ''FLAG VERIFICATION'', JStr ''Flag Verification'', JStr ''ABSENCE TESTS'', JStr ''Absence Test''}"

text \<open>
  Two texts that differ only by terminology resolution: the same cell, or the resolutions
  of one text under the two vendors' terms.
\<close>

definition textRel :: "terms \<Rightarrow> terms \<Rightarrow> jsval \<Rightarrow> jsval \<Rightarrow> bool" where
  "textRel tm1 tm2 a b \<longleftrightarrow>
     a = b \<or> (\<exists>t. a = JStr (applyTerms tm1 t) \<and> b = JStr (applyTerms tm2 t))"

text \<open>
  Two rows of the same structure: nine cells each, the same step number, section,
  scenario or flag identifier, role and result columns, and description and expected
  result that differ only by terminology resolution.
\<close>

definition sameStructure :: "terms \<Rightarrow> terms \<Rightarrow> jsval list \<Rightarrow> jsval list \<Rightarrow> bool" where
  "sameStructure tm1 tm2 r1 r2 \<longleftrightarrow>
     length r1 = 9 \<and> length r2 = 9
     \<and> r1 ! 0 = r2 ! 0 \<and> r1 ! 1 = r2 ! 1 \<and> r1 ! 2 = r2 ! 2 \<and> r1 ! 3 = r2 ! 3
     \<and> textRel tm1 tm2 (r1 ! 4) (r2 ! 4) \<and> textRel tm1 tm2 (r1 ! 5) (r2 ! 5)
     \<and> r1 ! 6 = r2 ! 6 \<and> r1 ! 7 = r2 ! 7 \<and> r1 ! 8 = r2 ! 8"

definition cellsRel :: "terms \<Rightarrow> terms \<Rightarrow> rowKind \<times> jsval list \<Rightarrow> rowKind \<times> jsval list \<Rightarrow> bool" where
  "cellsRel tm1 tm2 tr1 tr2 \<longleftrightarrow>
     fst tr1 = fst tr2 \<and> sameStructure tm1 tm2 (JStr [] # snd tr1) (JStr [] # snd tr2)"

section \<open>A reader of delimited text\<close>

text \<open>
  The reader that the round-trip property of the tabular writer refers to is not part of
  the repository. It is modelled after RFC 4180 and the common readers: fields are
  separated by commas; a record ends at a line feed, at a carriage return, or at a
  carriage return followed by a line feed; a field that starts with a quote extends to
  its closing quote, a doubled quote inside it standing for one quote, and may contain
  commas, line feeds and carriage returns; a quote inside an unquoted field, a character
  other than a separator after a closing quote, and a missing closing quote are errors
  (\<open>None\<close>). The state \<open>AfterCR\<close> is the start of a record just after a carriage
  return, where a line feed belongs to the same line break.
\<close>

abbreviation CRETURN :: char where "CRETURN \<equiv> CHR 0x0D"

datatype readerState = FieldStart | Unquoted | Quoted | QuoteSeen | AfterCR

fun readFrom :: "readerState \<Rightarrow> string \<Rightarrow> string list \<Rightarrow> string list list \<Rightarrow> string \<Rightarrow> string list list option" where
  "readFrom st f r rs [] =
     (if st = Quoted then None else Some (rs @ [r @ [f]]))"
| "readFrom FieldStart f r rs (c # cs) =
     (if c = DQUOTE then readFrom Quoted [] r rs cs
      else if c = COMMA then readFrom FieldStart [] (r @ [[]]) rs cs
      else if c = NEWLINE then readFrom FieldStart [] [] (rs @ [r @ [[]]]) cs
      else if c = CRETURN then readFrom AfterCR [] [] (rs @ [r @ [[]]]) cs
      else readFrom Unquoted [c] r rs cs)"
| "readFrom AfterCR f r rs (c # cs) =
     (if c = NEWLINE then readFrom FieldStart [] [] rs cs
      else if c = DQUOTE then readFrom Quoted [] [] rs cs
      else if c = COMMA then readFrom FieldStart [] [[]] rs cs
      else if c = CRETURN then readFrom AfterCR [] [] (rs @ [[[]]]) cs
      else readFrom Unquoted [c] [] rs cs)"
| "readFrom Unquoted f r rs (c # cs) =
     (if c = COMMA then readFrom FieldStart [] (r @ [f]) rs cs
      else if c = NEWLINE then readFrom FieldStart [] [] (rs @ [r @ [f]]) cs
      else if c = CRETURN then readFrom AfterCR [] [] (rs @ [r @ [f]]) cs
      else if c = DQUOTE then None
      else readFrom Unquoted (f @ [c]) r rs cs)"
| "readFrom Quoted f r rs (c # cs) =
     (if c = DQUOTE then readFrom QuoteSeen f r rs cs
      else readFrom Quoted (f @ [c]) r rs cs)"
| "readFrom QuoteSeen f r rs (c # cs) =
     (if c = DQUOTE then readFrom Quoted (f @ [DQUOTE]) r rs cs
      else if c = COMMA then readFrom FieldStart [] (r @ [f]) rs cs
      else if c = NEWLINE then readFrom FieldStart [] [] (rs @ [r @ [f]]) cs
      else if c = CRETURN then readFrom AfterCR [] [] (rs @ [r @ [f]]) cs
      else None)"

definition readCsv :: "string \<Rightarrow> string list list option" where
  "readCsv text = readFrom FieldStart [] [] [] text"

text \<open>The text a cell stands for: nothing for \<^verbatim>\<open>null\<close> and \<^verbatim>\<open>undefined\<close>.\<close>

definition cellText :: "jsval \<Rightarrow> string" where
  "cellText v = (case v of JNull \<Rightarrow> [] | JUndefined \<Rightarrow> [] | _ \<Rightarrow> jsString v)"

definition needsQuoting :: "string \<Rightarrow> bool" where
  "needsQuoting s \<longleftrightarrow> COMMA \<in> set s \<or> DQUOTE \<in> set s \<or> NEWLINE \<in> set s"

text \<open>
  A cell the writer's output lets the reader recover: its text is written in quotes, or
  it has no carriage return.
\<close>

definition readable :: "jsval \<Rightarrow> bool" where
  "readable v \<longleftrightarrow> needsQuoting (cellText v) \<or> CRETURN \<notin> set (cellText v)"

definition doubleQuotes :: "string \<Rightarrow> string" where
  "doubleQuotes s = concat (map (\<lambda>c. if c = DQUOTE then [DQUOTE, DQUOTE] else [c]) s)"

text \<open>What the reader does after a complete field, and the texts that may follow a field.\<close>

definition afterField :: "string \<Rightarrow> string list \<Rightarrow> string list list \<Rightarrow> string \<Rightarrow> string list list option" where
  "afterField f r rs rest =
     (case rest of
        [] \<Rightarrow> Some (rs @ [r @ [f]])
      | c # cs \<Rightarrow> if c = COMMA then readFrom FieldStart [] (r @ [f]) rs cs
                  else readFrom FieldStart [] [] (rs @ [r @ [f]]) cs)"

definition separated :: "string \<Rightarrow> bool" where
  "separated rest \<longleftrightarrow> rest = [] \<or> hd rest = COMMA \<or> hd rest = NEWLINE"

section \<open>Tokens and simultaneous substitution\<close>

text \<open>
  A token is an opening brace, a name without braces and a closing brace. A text has
  no nested opening brace when every opening brace is followed by a closing brace before
  the next opening brace; \<open>inside\<close> tells whether an opening brace is pending.
\<close>

definition isToken :: "string \<Rightarrow> bool" where
  "isToken t \<longleftrightarrow>
     2 \<le> length t \<and> hd t = LBRACE \<and> last t = RBRACE
     \<and> LBRACE \<notin> set (butlast (tl t)) \<and> RBRACE \<notin> set (butlast (tl t))"

fun noNesting :: "bool \<Rightarrow> string \<Rightarrow> bool" where
  "noNesting inside [] = True"
| "noNesting inside (c # cs) =
     (if c = LBRACE then \<not> inside \<and> noNesting True cs
      else if c = RBRACE then noNesting False cs
      else noNesting inside cs)"

text \<open>A replacement text that can neither open a token nor refer to the match.\<close>

definition plainText :: "string \<Rightarrow> bool" where
  "plainText w \<longleftrightarrow> LBRACE \<notin> set w \<and> DOLLAR \<notin> set w"

text \<open>
  Substitution of several tokens in one pass from left to right: at each position the
  first pair of the list whose token starts there is replaced by its text.
\<close>

definition tokenAt :: "(string \<times> string) list \<Rightarrow> string \<Rightarrow> (string \<times> string) option" where
  "tokenAt al s = find (\<lambda>p. fst p \<noteq> [] \<and> prefix (fst p) s) al"

function substAll :: "(string \<times> string) list \<Rightarrow> string \<Rightarrow> string" where
  "substAll al s =
     (if s = [] then []
      else (case tokenAt al s of
              Some p \<Rightarrow> snd p @ substAll al (drop (length (fst p)) s)
            | None \<Rightarrow> hd s # substAll al (tl s)))"
  by pat_completeness auto
termination
  by (relation "measure (\<lambda>(al, s). length s)") (auto simp: tokenAt_def find_Some_iff)

definition tokenKeys :: "(string \<times> string) list \<Rightarrow> bool" where
  "tokenKeys al \<longleftrightarrow> list_all (\<lambda>p. isToken (fst p)) al"

definition ehrPairs :: "terms \<Rightarrow> (string \<times> string) list" where
  "ehrPairs t =
     [(''{flowsheet}'', termText (flowsheet t)), (''{patientList}'', termText (patientList t)),
      (''{alertFlag}'', termText (alertFlag t)), (''{noteType}'', termText (noteType t)),
      (''{orderEntry}'', termText (orderEntry t)), (''{storyboard}'', termText (storyboard t))]"

definition profilePairs :: "scenario \<Rightarrow> (string \<times> string) list" where
  "profilePairs sc =
     (let profile = scenario_patientProfile sc in
      [(''{chiefComplaint}'', profileField profile chiefComplaint),
       (''{diagnosis}'', profileField profile diagnosis),
       (''{labOrders}'', labOrders profile),
       (''{labResults}'', labResults profile),
       (''{problemList}'', profileField profile problemList),
       (''{medicalHistory}'', profileField profile medicalHistory),
       (''{antibiotics}'', profileField profile antibiotics)])"

text \<open>The vendor's terms, and the profile values of a scenario, are plain texts.\<close>

definition plainTerms :: "terms \<Rightarrow> bool" where
  "plainTerms t \<longleftrightarrow> list_all (\<lambda>p. plainText (snd p)) (ehrPairs t)"

definition plainProfile :: "scenario \<Rightarrow> bool" where
  "plainProfile sc \<longleftrightarrow> list_all (\<lambda>p. plainText (snd p)) (profilePairs sc)"

text \<open>The two orders of the two substitution passes.\<close>

definition ehrAfterProfile :: "testDefs \<Rightarrow> string \<Rightarrow> scenario \<Rightarrow> string \<Rightarrow> string option" where
  "ehrAfterProfile td text sc e = resolveEhrTerms td (resolveTemplateVars text sc) e"

definition profileAfterEhr :: "testDefs \<Rightarrow> string \<Rightarrow> scenario \<Rightarrow> string \<Rightarrow> string option" where
  "profileAfterEhr td text sc e =
     (case resolveEhrTerms td text e of None \<Rightarrow> None | Some t \<Rightarrow> Some (resolveTemplateVars t sc))"

text \<open>The resolver applied to its own result.\<close>

definition resolveTwice :: "testDefs \<Rightarrow> string \<Rightarrow> string \<Rightarrow> string option" where
  "resolveTwice td text e =
     (case resolveEhrTerms td text e of None \<Rightarrow> None | Some t \<Rightarrow> resolveEhrTerms td t e)"

definition ehrTokens :: "string list" where
  "ehrTokens = [''{flowsheet}'', ''{patientList}'', ''{alertFlag}'', ''{noteType}'',
                ''{orderEntry}'', ''{storyboard}'']"

section \<open>A small installation\<close>

text \<open>Concrete documents and customers, on which the theorems below are instantiated.\<close>

definition ex_terms_epic :: terms where
  "ex_terms_epic = \<lparr>flowsheet = Some ''Flowsheet'', patientList = Some ''Patient List'',
     alertFlag = Some ''BPA'', noteType = Some ''Note'', orderEntry = Some ''Order Entry'',
     storyboard = Some ''Storyboard''\<rparr>"

definition ex_scenario :: scenario where
  "ex_scenario = \<lparr>scenario_key = ''sepsis_ed_basic'', scenario_name = ''Sepsis ED'',
     scenario_product = ''sepsis'', description = ''Adult'', workflow = ''ED'',
     scenario_patientProfile = None, requiredFlags = Some [''bundle_tracking''],
     setupSteps = [\<lparr>step_role = Some ''rn'', action = ''Open {flowsheet}'', expected = ''Shown''\<rparr>],
     coreTestSteps = [\<lparr>step_role = None, action = ''Check {alertFlag}'', expected = ''Fires''\<rparr>]\<rparr>"

definition ex_criteria :: "string \<rightharpoonup> testCriteria" where
  "ex_criteria =
     [''bundle_tracking'' \<mapsto>
        \<lparr>whenEnabled = Some [\<lparr>crit_role = Some ''rn'', crit_step = ''Open {storyboard}''\<rparr>],
         whenDisabled = None\<rparr>,
      ''code_status_suppression'' \<mapsto>
        \<lparr>whenEnabled = None,
         whenDisabled = Some [\<lparr>crit_role = None, crit_step = ''No banner''\<rparr>]\<rparr>]"

definition ex_td :: testDefs where
  "ex_td = \<lparr>ehrTerminology = [''Epic'' \<mapsto> ex_terms_epic], roles = [''rn'' \<mapsto> ''Nurse''],
     flagTestCriteria = ex_criteria, scenarios = [ex_scenario]\<rparr>"

definition ex_flags :: "(string \<times> flagDef list) list" where
  "ex_flags =
     [(''bundle_manager'',
        [\<lparr>flag_key = ''bundle_tracking'', flag_name = ''Bundle Tracking'',
          applicableProducts = AllProducts\<rparr>]),
      (''suppression'',
        [\<lparr>flag_key = ''code_status_suppression'', flag_name = ''Code Status'',
          applicableProducts = ProductList [''sepsis'']\<rparr>])]"

definition ex_config :: customerConfig where
  "ex_config =
     [''sepsis'' \<mapsto>
        \<lparr>flags = [''bundle_tracking'' \<mapsto> JBool True, ''code_status_suppression'' \<mapsto> JBool False],
         config_notes = Map.empty\<rparr>]"

text \<open>The same product with both flags switched the other way.\<close>

definition ex_config_swapped :: customerConfig where
  "ex_config_swapped =
     [''sepsis'' \<mapsto>
        \<lparr>flags = [''bundle_tracking'' \<mapsto> JBool False, ''code_status_suppression'' \<mapsto> JBool True],
         config_notes = Map.empty\<rparr>]"

definition ex_fd :: flagData where
  "ex_fd = \<lparr>products = [\<lparr>product_key = ''sepsis'', product_name = ''Sepsis''\<rparr>],
     customers = [], flagDefinitions = ex_flags,
     configurations = [''acme'' \<mapsto> ex_config, ''zenith'' \<mapsto> ex_config_swapped]\<rparr>"

definition ex_customer :: customer where
  "ex_customer = \<lparr>customer_key = ''acme'', customer_name = ''Acme'', ehr = ''Cerner'',
     customer_products = [''sepsis'']\<rparr>"

text \<open>A scenario outside the relevance gate, with a patient profile and no required flags.\<close>

definition ex_profile :: patientProfile where
  "ex_profile = \<lparr>age = JNum 67, sex = JStr ''F'', location = JStr ''ED'',
     chiefComplaint = Some ''fever'', diagnosis = None, profile_labs = None,
     problemList = None, medicalHistory = None, antibiotics = None\<rparr>"

definition ex_scenario_plain :: scenario where
  "ex_scenario_plain = \<lparr>scenario_key = ''routine_screen'', scenario_name = ''Screen'',
     scenario_product = ''sepsis'', description = ''Adult'', workflow = ''Floor'',
     scenario_patientProfile = Some ex_profile, requiredFlags = None,
     setupSteps = [\<lparr>step_role = None, action = ''Admit for {chiefComplaint}'', expected = ''Done''\<rparr>],
     coreTestSteps = []\<rparr>"

text \<open>
  Two products; the customer lists them in the opposite order of the product catalog and
  has the same flag switched off for both.
\<close>

definition ex_fd_two :: flagData where
  "ex_fd_two = \<lparr>products = [\<lparr>product_key = ''sepsis'', product_name = ''Sepsis''\<rparr>,
                            \<lparr>product_key = ''falls'', product_name = ''Falls''\<rparr>],
     customers = [],
     flagDefinitions =
       [(''suppression'',
          [\<lparr>flag_key = ''code_status_suppression'', flag_name = ''Code Status'',
            applicableProducts = AllProducts\<rparr>])],
     configurations =
       [''borealis'' \<mapsto>
          [''sepsis'' \<mapsto> \<lparr>flags = [''code_status_suppression'' \<mapsto> JBool False], config_notes = Map.empty\<rparr>,
           ''falls'' \<mapsto> \<lparr>flags = [''code_status_suppression'' \<mapsto> JBool False], config_notes = Map.empty\<rparr>]]\<rparr>"

definition ex_customer_two :: customer where
  "ex_customer_two = \<lparr>customer_key = ''borealis'', customer_name = ''Borealis'', ehr = ''Epic'',
     customer_products = [''falls'', ''sepsis'']\<rparr>"

text \<open>Both scenarios in the library, and a customer the configurations document does not know.\<close>

definition ex_td_both :: testDefs where
  "ex_td_both = ex_td\<lparr>scenarios := [ex_scenario, ex_scenario_plain]\<rparr>"

definition ex_customer_new :: customer where
  "ex_customer_new = \<lparr>customer_key = ''nova'', customer_name = ''Nova'', ehr = ''Epic'',
     customer_products = [''sepsis'']\<rparr>"

text \<open>A terminology table with a second vendor.\<close>

definition ex_terms_cerner :: terms where
  "ex_terms_cerner = \<lparr>flowsheet = Some ''iView'', patientList = Some ''Tracking List'',
     alertFlag = Some ''Alert'', noteType = Some ''PowerNote'', orderEntry = Some ''PowerOrders'',
     storyboard = Some ''Banner Bar''\<rparr>"

definition ex_td_vendors :: testDefs where
  "ex_td_vendors = ex_td\<lparr>ehrTerminology := [''Epic'' \<mapsto> ex_terms_epic, ''Cerner'' \<mapsto> ex_terms_cerner]\<rparr>"

text \<open>A step text with a comma, a quote and a newline: \<^verbatim>\<open>a,"b"\<close>, line feed, \<^verbatim>\<open>c\<close>.\<close>

definition ex_text :: string where
  "ex_text = [CHR ''a'', COMMA, DQUOTE, CHR ''b'', DQUOTE, NEWLINE, CHR ''c'']"

text \<open>A step text with a carriage return and no comma, quote or line feed.\<close>

definition ex_cr_text :: string where
  "ex_cr_text = [CHR ''a'', CRETURN, CHR ''b'']"
text \<open>
  A scenario whose chief complaint mentions a terminology token, a terminology table whose
  alert term is the word \<open>Flag\<close>, one whose flowsheet term is missing, and an empty one.
\<close>

definition ex_scenario_token :: scenario where
  "ex_scenario_token = ex_scenario_plain\<lparr>scenario_patientProfile :=
     Some (ex_profile\<lparr>chiefComplaint := Some ''see {flowsheet}''\<rparr>)\<rparr>"

definition ex_td_flag :: testDefs where
  "ex_td_flag = ex_td\<lparr>ehrTerminology := [''Epic'' \<mapsto> ex_terms_epic\<lparr>alertFlag := Some ''Flag''\<rparr>]\<rparr>"

definition ex_td_partial :: testDefs where
  "ex_td_partial = ex_td\<lparr>ehrTerminology := [''Epic'' \<mapsto> ex_terms_epic\<lparr>flowsheet := None\<rparr>]\<rparr>"

definition ex_td_empty :: testDefs where
  "ex_td_empty = ex_td\<lparr>ehrTerminology := Map.empty\<rparr>"

text \<open>
  Values with a dollar pattern of \<^verbatim>\<open>String.prototype.replace\<close>: a diagnosis and a flowsheet
  term that stand for the text before the match, and a flowsheet term that stands for the
  match followed by the text before it.
\<close>

definition ex_scenario_pre :: scenario where
  "ex_scenario_pre = ex_scenario_plain\<lparr>scenario_patientProfile :=
     Some (ex_profile\<lparr>diagnosis := Some ''$`''\<rparr>)\<rparr>"

definition ex_td_pre :: testDefs where
  "ex_td_pre = ex_td\<lparr>ehrTerminology := [''Epic'' \<mapsto> ex_terms_epic\<lparr>flowsheet := Some ''$`''\<rparr>]\<rparr>"

definition ex_td_match :: testDefs where
  "ex_td_match = ex_td\<lparr>ehrTerminology := [''Epic'' \<mapsto> ex_terms_epic\<lparr>flowsheet := Some ''$&$`''\<rparr>]\<rparr>"


section \<open>Applicability filter\<close>

lemma requiredLoop_iff: "requiredLoop pc rf \<longleftrightarrow> (\<forall>k \<in> set rf. flags pc k = Some (JBool True))"
  by (induction rf) auto

lemma scenarioApplies_iff:
  "scenarioApplies sc c cfg \<longleftrightarrow>
     scenario_product sc \<in> set (customer_products c) \<and>
     (case requiredFlags sc of
        None \<Rightarrow> True
      | Some rf \<Rightarrow>
          rf = [] \<or>
          (\<exists>pc. configBlock cfg (scenario_product sc) = Some pc \<and>
                (\<forall>k \<in> set rf. flags pc k = Some (JBool True))))"
  by (auto simp: scenarioApplies_def configBlock_def requiredLoop_iff split: option.splits)

text \<open>
  Claim C3. \<open>scenarioApplies\<close> is false when the customer's products do not contain the
  scenario's product; otherwise, when \<open>requiredFlags\<close> is present and non-empty, it is
  false when the configuration has no block for the product or some required flag is not
  exactly \<open>true\<close> in that block (absent and \<open>false\<close> both fail); otherwise it is true.
\<close>

theorem scenarioApplies_rules:
  "scenarioApplies sc c cfg \<longleftrightarrow>
     scenario_product sc \<in> set (customer_products c) \<and>
     (case requiredFlags sc of
        None \<Rightarrow> True
      | Some rf \<Rightarrow>
          rf = [] \<or>
          (\<exists>pc. configBlock cfg (scenario_product sc) = Some pc \<and>
                (\<forall>k \<in> set rf. flags pc k = Some (JBool True))))"
  by (rule scenarioApplies_iff)

theorem scenarioApplies_rules_witness:
  "scenarioApplies ex_scenario ex_customer (Some ex_config)
   \<and> \<not> scenarioApplies ex_scenario ex_customer (Some ex_config_swapped)
   \<and> \<not> scenarioApplies ex_scenario ex_customer None
   \<and> \<not> scenarioApplies ex_scenario (ex_customer\<lparr>customer_products := []\<rparr>) (Some ex_config)"
  using scenarioApplies_rules [of ex_scenario ex_customer "Some ex_config"]
    scenarioApplies_rules [of ex_scenario ex_customer "Some ex_config_swapped"]
    scenarioApplies_rules [of ex_scenario ex_customer None]
    scenarioApplies_rules [of ex_scenario "ex_customer\<lparr>customer_products := []\<rparr>" "Some ex_config"]
  by (simp add: ex_scenario_def ex_customer_def ex_config_def ex_config_swapped_def configBlock_def)


section \<open>Flag test selector\<close>

lemma flagLoop_eq:
  "flagLoop td pc pk cat fs acc =
     \<lparr>enabled = enabled acc @ concat (map (selectFlag td pk (flags pc) True whenEnabled cat) fs),
      disabled = disabled acc @ concat (map (selectFlag td pk (flags pc) False whenDisabled cat) fs)\<rparr>"
proof (induction fs arbitrary: acc)
  case Nil
  then show ?case by simp
next
  case (Cons f fs)
  show ?case
    by (simp add: Cons.IH selectFlag_def productApplies_def Let_def split: option.splits)
qed

lemma categoryLoop_eq:
  "categoryLoop td pc pk cats acc =
     \<lparr>enabled = enabled acc
        @ concat (map (\<lambda>(cat, fs). concat (map (selectFlag td pk (flags pc) True whenEnabled cat) fs)) cats),
      disabled = disabled acc
        @ concat (map (\<lambda>(cat, fs). concat (map (selectFlag td pk (flags pc) False whenDisabled cat) fs)) cats)\<rparr>"
proof (induction cats arbitrary: acc)
  case Nil
  then show ?case by simp
next
  case (Cons a cats)
  obtain cat fs where a: "a = (cat, fs)" by (cases a)
  show ?case
    by (simp add: a Cons.IH flagLoop_eq)
qed

lemma selectFlag_absent: "selectFlag td pk (\<lambda>k. None) v side cat f = []"
  by (simp add: selectFlag_def split: option.splits)

lemma getFlagTests_eq:
  "getFlagTests td fd c pk cfg =
     \<lparr>enabled = selectSide td fd pk cfg True whenEnabled,
      disabled = selectSide td fd pk cfg False whenDisabled\<rparr>"
proof (cases "configBlock cfg pk")
  case None
  then have v: "configuredValue cfg pk = (\<lambda>k. None)"
    by (simp add: configuredValue_def fun_eq_iff)
  have "getFlagTests td fd c pk cfg = \<lparr>enabled = [], disabled = []\<rparr>"
    using None by (simp add: getFlagTests_def configBlock_def)
  then show ?thesis
    by (simp add: selectSide_def v split_def selectFlag_absent)
next
  case (Some pc)
  then have v: "configuredValue cfg pk = flags pc"
    by (simp add: configuredValue_def fun_eq_iff)
  have "getFlagTests td fd c pk cfg =
      categoryLoop td pc pk (flagDefinitions fd) \<lparr>enabled = [], disabled = []\<rparr>"
    using Some by (simp add: getFlagTests_def configBlock_def)
  then show ?thesis
    by (simp add: categoryLoop_eq selectSide_def v)
qed

lemma selectFlag_cases:
  "selectFlag td pk val v side cat f = [] \<or>
   (\<exists>tc cr. flagTestCriteria td (flag_key f) = Some tc \<and> val (flag_key f) = Some (JBool v)
       \<and> side tc = Some cr
       \<and> selectFlag td pk val v side cat f = [\<lparr>ft_flag = f, ft_criteria = cr, ft_category = cat\<rparr>])"
proof (cases "flagTestCriteria td (flag_key f)")
  case None
  then show ?thesis by (simp add: selectFlag_def)
next
  case tc: (Some tc)
  show ?thesis
  proof (cases "side tc")
    case None
    then show ?thesis using tc by (simp add: selectFlag_def)
  next
    case (Some cr)
    show ?thesis
    proof (cases "val (flag_key f) = Some (JBool v)")
      case True
      then show ?thesis using Some tc by (simp add: selectFlag_def)
    next
      case False
      then show ?thesis using Some tc by (simp add: selectFlag_def)
    qed
  qed
qed

lemma selectFlag_keys:
  assumes "ft \<in> set (selectFlag td pk val v side cat f)"
  shows "\<exists>tc cr. flagTestCriteria td (flag_key (ft_flag ft)) = Some tc
      \<and> val (flag_key (ft_flag ft)) = Some (JBool v) \<and> side tc = Some cr"
  using assms selectFlag_cases [of td pk val v side cat f] by auto

lemma selectSide_keys:
  assumes "ft \<in> set (selectSide td fd pk cfg v side)"
  shows "\<exists>tc cr. flagTestCriteria td (flag_key (ft_flag ft)) = Some tc
      \<and> configuredValue cfg pk (flag_key (ft_flag ft)) = Some (JBool v) \<and> side tc = Some cr"
proof -
  from assms obtain cat f where "ft \<in> set (selectFlag td pk (configuredValue cfg pk) v side cat f)"
    by (auto simp: selectSide_def)
  then show ?thesis by (rule selectFlag_keys)
qed

text \<open>
  Claim C4. The selector walks the flag catalog in category-then-definition order, skips
  flags that do not apply to the product and flags without a criteria entry, and puts a
  flag in the enabled bucket exactly when its configured value is \<open>true\<close> and a
  \<open>whenEnabled\<close> list exists, in the disabled bucket exactly when the value is \<open>false\<close>
  and a \<open>whenDisabled\<close> list exists. A flag with only \<open>whenEnabled\<close> configured
  \<open>false\<close>, or with only \<open>whenDisabled\<close> configured \<open>true\<close>, is in neither bucket.
\<close>

theorem getFlagTests_selects:
  "enabled (getFlagTests td fd c pk cfg) = selectSide td fd pk cfg True whenEnabled
   \<and> disabled (getFlagTests td fd c pk cfg) = selectSide td fd pk cfg False whenDisabled
   \<and> (\<forall>k tc. flagTestCriteria td k = Some tc \<and> whenDisabled tc = None
          \<and> configuredValue cfg pk k = Some (JBool False)
        \<longrightarrow> (\<forall>ft \<in> set (enabled (getFlagTests td fd c pk cfg) @ disabled (getFlagTests td fd c pk cfg)).
               flag_key (ft_flag ft) \<noteq> k))
   \<and> (\<forall>k tc. flagTestCriteria td k = Some tc \<and> whenEnabled tc = None
          \<and> configuredValue cfg pk k = Some (JBool True)
        \<longrightarrow> (\<forall>ft \<in> set (enabled (getFlagTests td fd c pk cfg) @ disabled (getFlagTests td fd c pk cfg)).
               flag_key (ft_flag ft) \<noteq> k))"
proof -
  have e: "enabled (getFlagTests td fd c pk cfg) = selectSide td fd pk cfg True whenEnabled"
    by (simp add: getFlagTests_eq)
  have d: "disabled (getFlagTests td fd c pk cfg) = selectSide td fd pk cfg False whenDisabled"
    by (simp add: getFlagTests_eq)
  have n1: "flag_key (ft_flag ft) \<noteq> k"
    if "flagTestCriteria td k = Some tc" "whenDisabled tc = None"
      "configuredValue cfg pk k = Some (JBool False)"
      "ft \<in> set (selectSide td fd pk cfg True whenEnabled) \<or> ft \<in> set (selectSide td fd pk cfg False whenDisabled)"
    for k tc ft
    using that selectSide_keys [of ft td fd pk cfg True whenEnabled]
      selectSide_keys [of ft td fd pk cfg False whenDisabled] by auto
  have n2: "flag_key (ft_flag ft) \<noteq> k"
    if "flagTestCriteria td k = Some tc" "whenEnabled tc = None"
      "configuredValue cfg pk k = Some (JBool True)"
      "ft \<in> set (selectSide td fd pk cfg True whenEnabled) \<or> ft \<in> set (selectSide td fd pk cfg False whenDisabled)"
    for k tc ft
    using that selectSide_keys [of ft td fd pk cfg True whenEnabled]
      selectSide_keys [of ft td fd pk cfg False whenDisabled] by auto
  show ?thesis
    unfolding e d using n1 n2 by (simp; blast)
qed

theorem getFlagTests_selects_witness:
  "flagTestCriteria ex_td ''bundle_tracking''
      = Some \<lparr>whenEnabled = Some [\<lparr>crit_role = Some ''rn'', crit_step = ''Open {storyboard}''\<rparr>],
              whenDisabled = None\<rparr>
   \<and> configuredValue (Some ex_config_swapped) ''sepsis'' ''bundle_tracking'' = Some (JBool False)
   \<and> flagTestCriteria ex_td ''code_status_suppression''
      = Some \<lparr>whenEnabled = None,
              whenDisabled = Some [\<lparr>crit_role = None, crit_step = ''No banner''\<rparr>]\<rparr>
   \<and> configuredValue (Some ex_config_swapped) ''sepsis'' ''code_status_suppression'' = Some (JBool True)
   \<and> enabled (getFlagTests ex_td ex_fd ex_customer ''sepsis'' (Some ex_config_swapped)) = []
   \<and> disabled (getFlagTests ex_td ex_fd ex_customer ''sepsis'' (Some ex_config_swapped)) = []
   \<and> map (\<lambda>ft. (flag_key (ft_flag ft), ft_category ft))
        (enabled (getFlagTests ex_td ex_fd ex_customer ''sepsis'' (Some ex_config)))
      = [(''bundle_tracking'', ''bundle_manager'')]
   \<and> map (\<lambda>ft. (flag_key (ft_flag ft), ft_category ft))
        (disabled (getFlagTests ex_td ex_fd ex_customer ''sepsis'' (Some ex_config)))
      = [(''code_status_suppression'', ''suppression'')]"
  using getFlagTests_selects [of ex_td ex_fd ex_customer "''sepsis''" "Some ex_config_swapped"]
    getFlagTests_selects [of ex_td ex_fd ex_customer "''sepsis''" "Some ex_config"]
  by (simp add: ex_td_def ex_criteria_def ex_fd_def ex_flags_def ex_config_def ex_config_swapped_def
      configuredValue_def configBlock_def selectSide_def selectFlag_def)


section \<open>Closed form of the assembler\<close>

lemma numberRows_append:
  "numberRows n (a @ b) = numberRows n a @ numberRows (n + counted a) b"
  by (induction n a rule: numberRows.induct) (simp_all add: counted_def)

lemma counted_append: "counted (a @ b) = counted a + counted b"
  by (simp add: counted_def)

lemma emit_Nil: "emit [] st = st"
  by (simp add: emit_def counted_def)

lemma emit_append: "emit b (emit a st) = emit (a @ b) st"
  by (simp add: emit_def numberRows_append counted_append)

lemma emit_Numbered:
  "push (JNum (stepNum (incr st)) # cells) (incr st) = emit [(Numbered, cells)] st"
  by (simp add: emit_def push_def incr_def counted_def)

lemma emit_Consumes: "push (JStr [] # cells) (incr st) = emit [(Consumes, cells)] st"
  by (simp add: emit_def push_def incr_def counted_def)

lemma emit_Plain: "push (JStr [] # cells) st = emit [(Plain, cells)] st"
  by (simp add: emit_def push_def counted_def)

lemma stepLoop_emit:
  assumes "ehrTerms td e = Some tm"
  shows "stepLoop td e sc section steps st
     = Some (emit (map (\<lambda>s. (Numbered, stepCells td tm sc section s)) steps) st)"
proof (induction steps arbitrary: st)
  case Nil
  show ?case by (simp add: emit_Nil)
next
  case (Cons s steps)
  have "stepLoop td e sc section (s # steps) st
      = stepLoop td e sc section steps (emit [(Numbered, stepCells td tm sc section s)] st)"
    using assms by (simp add: resolveEhrTerms_def Let_def stepCells_def flip: emit_Numbered)
  then show ?case by (simp add: Cons.IH emit_append)
qed

lemma criteriaLoop_emit:
  assumes "ehrTerms td e = Some tm"
  shows "criteriaLoop td e section verdict ft crs st
     = Some (emit (map (\<lambda>cr. (Numbered, criterionCells td tm section verdict ft cr)) crs) st)"
proof (induction crs arbitrary: st)
  case Nil
  show ?case by (simp add: emit_Nil)
next
  case (Cons cr crs)
  have "criteriaLoop td e section verdict ft (cr # crs) st
      = criteriaLoop td e section verdict ft crs
          (emit [(Numbered, criterionCells td tm section verdict ft cr)] st)"
    using assms by (simp add: resolveEhrTerms_def Let_def criterionCells_def flip: emit_Numbered)
  then show ?case by (simp add: Cons.IH emit_append)
qed

lemma flagTestLoop_emit:
  assumes "ehrTerms td e = Some tm"
  shows "flagTestLoop td e fts st
     = Some (emit (concat (map (flagTestCells td tm ''Flag Verification'' ''VERIFY'') fts)) st)"
proof (induction fts arbitrary: st)
  case Nil
  show ?case by (simp add: emit_Nil)
next
  case (Cons ft fts)
  show ?case
    by (simp add: criteriaLoop_emit [OF assms] Cons.IH emit_append flagTestCells_def)
qed

lemma row_tl:
  "scenarioHeaderRow sc = JStr [] # tl (scenarioHeaderRow sc)"
  "patientRow sc p = JStr [] # tl (patientRow sc p)"
  "flagVerificationRow sc = JStr [] # tl (flagVerificationRow sc)"
  "absenceHeaderRow fd pk = JStr [] # tl (absenceHeaderRow fd pk)"
  "categoryRow cat = JStr [] # tl (categoryRow cat)"
  by (simp_all add: scenarioHeaderRow_def patientRow_def flagVerificationRow_def
      absenceHeaderRow_def categoryRow_def)

lemma push_header:
  "push (scenarioHeaderRow sc) (incr st) = emit [(Consumes, tl (scenarioHeaderRow sc))] st"
  "push (patientRow sc p) (incr st) = emit [(Consumes, tl (patientRow sc p))] st"
  "push (flagVerificationRow sc) st = emit [(Plain, tl (flagVerificationRow sc))] st"
  "push (absenceHeaderRow fd pk) st = emit [(Plain, tl (absenceHeaderRow fd pk))] st"
  "push (categoryRow cat) st = emit [(Plain, tl (categoryRow cat))] st"
  using row_tl(1) [of sc] row_tl(2) [of sc p] row_tl(3) [of sc] row_tl(4) [of fd pk] row_tl(5) [of cat]
    emit_Consumes emit_Plain by metis+

lemma scenarioBlock_emit:
  assumes "ehrTerms td (ehr c) = Some tm"
  shows "scenarioBlock td fd c cfg sc st
     = Some (emit (scenarioCells td tm sc (scenarioFlagTests td fd c cfg sc)) st)"
proof (cases "scenario_patientProfile sc")
  case None
  then show ?thesis
    by (simp add: scenarioBlock_def Let_def push_header stepLoop_emit [OF assms]
        flagTestLoop_emit [OF assms] emit_append scenarioCells_def)
next
  case (Some p)
  then show ?thesis
    by (simp add: scenarioBlock_def Let_def push_header stepLoop_emit [OF assms]
        flagTestLoop_emit [OF assms] emit_append scenarioCells_def)
qed

lemma scenarioLoop_emit:
  assumes "ehrTerms td (ehr c) = Some tm"
  shows "scenarioLoop td fd c cfg scs st
     = Some (emit (concat (map (\<lambda>sc. scenarioCells td tm sc (scenarioFlagTests td fd c cfg sc))
                            (filter (\<lambda>sc. scenarioApplies sc c cfg) scs))) st)"
proof (induction scs arbitrary: st)
  case Nil
  show ?case by (simp add: emit_Nil)
next
  case (Cons sc scs)
  show ?case
    by (simp add: scenarioBlock_emit [OF assms] Cons.IH emit_append)
qed

lemma absenceLoop_emit:
  assumes "ehrTerms td e = Some tm"
  shows "absenceLoop td e cur fts st = Some (emit (absenceGroup td tm cur fts) st)"
proof (induction fts arbitrary: cur st)
  case Nil
  show ?case by (simp add: emit_Nil absenceGroup_def)
next
  case (Cons ft fts)
  have g: "absenceGroup td tm cur (ft # fts)
      = (if Some (ft_category ft) \<noteq> cur then [(Plain, tl (categoryRow (ft_category ft)))] else [])
        @ flagTestCells td tm ''Absence Test'' ''VERIFY ABSENT'' ft
        @ absenceGroup td tm (Some (ft_category ft)) fts"
    by (simp add: absenceGroup_def)
  show ?case
    by (simp add: g Let_def push_header criteriaLoop_emit [OF assms] Cons.IH emit_append
        flagTestCells_def)
qed

lemma productLoop_emit:
  assumes "ehrTerms td (ehr c) = Some tm"
  shows "productLoop td fd c cfg ps st
     = Some (emit (concat (map (\<lambda>pk. absenceCells td fd tm pk (disabled (getFlagTests td fd c pk cfg))) ps)) st)"
proof (induction ps arbitrary: st)
  case Nil
  show ?case by (simp add: emit_Nil)
next
  case (Cons pk ps)
  show ?case
    by (simp add: Let_def push_header absenceLoop_emit [OF assms] Cons.IH emit_append
        absenceCells_def)
qed

lemma part1_emit:
  assumes "ehrTerms td (ehr c) = Some tm"
  shows "part1 td fd c = Some (emit (part1Cells td fd c tm) \<lparr>stepNum = 0, rows = [headerRow]\<rparr>)"
  by (simp add: part1_def part1Cells_def Let_def scenarioLoop_emit [OF assms])

lemma planState_emit:
  assumes "ehrTerms td (ehr c) = Some tm"
  shows "planState td fd c
     = Some (emit (part1Cells td fd c tm @ part2Cells td fd c tm) \<lparr>stepNum = 0, rows = [headerRow]\<rparr>)"
  by (simp add: planState_def part1_emit [OF assms] productLoop_emit [OF assms] part2Cells_def
      Let_def emit_append)

lemma planRows_closed:
  assumes "ehrTerms td (ehr c) = Some tm"
  shows "planRows td fd c
     = Some (headerRow # numberRows 0 (part1Cells td fd c tm @ part2Cells td fd c tm))"
  by (simp add: planRows_def planState_emit [OF assms] emit_def)


section \<open>Scenario flag-relevance gate\<close>

lemma bundle_iff:
  "(case requiredFlags sc of None \<Rightarrow> False | Some rf \<Rightarrow> ''bundle_tracking'' \<in> set rf)
     = (\<exists>rf. requiredFlags sc = Some rf \<and> ''bundle_tracking'' \<in> set rf)"
  by (cases "requiredFlags sc") simp_all

lemma icu_includes: "strIncludes ''septic_shock_rnf_to_icu'' ''septic_shock''"
  by (simp add: prefix_def)

lemma gate_sets:
  "(let k = key; r0 = {};
        r1 = (if inc1 \<or> inc2 then
                (let a = insert ''regulatory'' (insert ''documentation'' (insert ''assessment_writeback'' r0))
                 in if b then insert ''bundle_manager'' a else a)
              else r0);
        r2 = (if k = ''no_sepsis_no_infection''
              then insert ''contributing_factors'' (insert ''assessment_writeback'' r1) else r1);
        r3 = (if k = ''abx_workflow'' then insert ''suppression'' r2 else r2);
        r4 = (if k = ''comfort_care_suppression'' then insert ''suppression'' r3 else r3);
        r5 = (if k = ''septic_shock_rnf_to_icu''
              then insert ''contributing_factors'' (insert ''assessment_writeback'' r4) else r4)
    in r5)
   = (if inc1 \<or> inc2
       then {''assessment_writeback'', ''documentation'', ''regulatory''}
            \<union> (if b then {''bundle_manager''} else {})
       else {})
      \<union> (if key = ''no_sepsis_no_infection'' \<or> key = ''septic_shock_rnf_to_icu''
         then {''assessment_writeback'', ''contributing_factors''} else {})
      \<union> (if key = ''abx_workflow'' \<or> key = ''comfort_care_suppression''
         then {''suppression''} else {})"
  by (cases b; cases "inc1 \<or> inc2") (auto simp: Let_def)

lemma relevantCategories_gate: "relevantCategories sc = gateCategories sc"
  unfolding relevantCategories_def gateCategories_def bundle_iff
  using gate_sets [of "scenario_key sc"] by (simp add: Let_def)

lemma gateUnmatched_empty: "gateUnmatched sc \<Longrightarrow> gateCategories sc = {}"
  by (simp add: gateUnmatched_def gateCategories_def Let_def)

lemma tl_numberRows: "map tl (numberRows n trs) = map snd trs"
  by (induction n trs rule: numberRows.induct) simp_all

lemma new_rows_emit: "drop (length (rows st)) (rows (emit trs st)) = numberRows (stepNum st) trs"
  by (simp add: emit_def)

lemma scenarioCells_no_flags:
  "tr \<in> set (scenarioCells td tm sc []) \<Longrightarrow>
     snd tr ! 0 \<in> {JStr ''SCENARIO'', JStr ''PATIENT SETUP'', JStr ''Setup'', JStr ''Bayesian UI Test''}"
  by (auto simp: scenarioCells_def scenarioHeaderRow_def patientRow_def stepCells_def
      split: option.splits)

lemma numberRows_section:
  assumes "r \<in> set (numberRows n trs)"
  shows "\<exists>tr \<in> set trs. r ! 1 = snd tr ! 0"
proof -
  from assms have "tl r \<in> set (map snd trs)"
    by (metis tl_numberRows imageI set_map)
  then obtain tr where tr: "tr \<in> set trs" "tl r = snd tr" by auto
  from assms have "r \<noteq> []"
    by (induction n trs rule: numberRows.induct) auto
  with tr have "r ! 1 = snd tr ! 0"
    by (cases r) auto
  with tr show ?thesis by blast
qed

text \<open>
  Claim C2. The categories whose enabled-flag verification steps are appended to a
  scenario's block are: for a key containing "sepsis_ed" or "septic_shock",
  assessment_writeback, documentation and regulatory, plus bundle_manager exactly when
  \<open>requiredFlags\<close> contains "bundle_tracking"; assessment_writeback and
  contributing_factors for the keys "no_sepsis_no_infection" and
  "septic_shock_rnf_to_icu"; suppression for "abx_workflow" and
  "comfort_care_suppression". The block carries the verification rows of exactly the
  enabled flag tests in these categories, and a scenario that no rule matches has no
  categories and no Flag Verification section.
\<close>

theorem relevance_gate:
  "relevantCategories sc = gateCategories sc
   \<and> scenarioFlagTests td fd c cfg sc
       = filter (\<lambda>f. ft_category f \<in> gateCategories sc)
           (enabled (getFlagTests td fd c (scenario_product sc) cfg))
   \<and> (ehrTerms td (ehr c) = Some tm \<longrightarrow>
        scenarioBlock td fd c cfg sc st
          = Some (emit (scenarioCells td tm sc
                    (filter (\<lambda>f. ft_category f \<in> gateCategories sc)
                       (enabled (getFlagTests td fd c (scenario_product sc) cfg)))) st))
   \<and> (gateUnmatched sc \<longrightarrow> gateCategories sc = {})
   \<and> (gateUnmatched sc \<and> ehrTerms td (ehr c) = Some tm \<longrightarrow>
        (\<exists>st'. scenarioBlock td fd c cfg sc st = Some st'
           \<and> (\<forall>r \<in> set (drop (length (rows st)) (rows st')).
                r ! 1 \<noteq> JStr ''FLAG VERIFICATION'' \<and> r ! 1 \<noteq> JStr ''Flag Verification'')))"
proof -
  have f: "scenarioFlagTests td fd c cfg sc
       = filter (\<lambda>f. ft_category f \<in> gateCategories sc)
           (enabled (getFlagTests td fd c (scenario_product sc) cfg))"
    by (simp add: scenarioFlagTests_def relevantCategories_gate)
  have b: "scenarioBlock td fd c cfg sc st
          = Some (emit (scenarioCells td tm sc
                    (filter (\<lambda>f. ft_category f \<in> gateCategories sc)
                       (enabled (getFlagTests td fd c (scenario_product sc) cfg)))) st)"
    if "ehrTerms td (ehr c) = Some tm"
    using scenarioBlock_emit [OF that] by (simp add: f)
  have u: "\<exists>st'. scenarioBlock td fd c cfg sc st = Some st'
           \<and> (\<forall>r \<in> set (drop (length (rows st)) (rows st')).
                r ! 1 \<noteq> JStr ''FLAG VERIFICATION'' \<and> r ! 1 \<noteq> JStr ''Flag Verification'')"
    if un: "gateUnmatched sc" and tm: "ehrTerms td (ehr c) = Some tm"
  proof -
    have blk: "scenarioBlock td fd c cfg sc st = Some (emit (scenarioCells td tm sc []) st)"
      using b [OF tm] by (simp add: gateUnmatched_empty [OF un])
    have "r ! 1 \<noteq> JStr ''FLAG VERIFICATION'' \<and> r ! 1 \<noteq> JStr ''Flag Verification''"
      if "r \<in> set (numberRows (stepNum st) (scenarioCells td tm sc []))" for r
    proof -
      from numberRows_section [OF that] obtain tr
        where "tr \<in> set (scenarioCells td tm sc [])" "r ! 1 = snd tr ! 0" by blast
      with scenarioCells_no_flags [of tr td tm sc] show ?thesis by auto
    qed
    with blk show ?thesis by (simp add: new_rows_emit)
  qed
  show ?thesis
    using f b u by (simp add: relevantCategories_gate gateUnmatched_empty)
qed

theorem relevance_gate_witness:
  "gateUnmatched ex_scenario_plain
   \<and> ehrTerms ex_td (ehr ex_customer) = Some ex_terms_epic
   \<and> gateCategories ex_scenario_plain = {}
   \<and> (\<exists>st'. scenarioBlock ex_td ex_fd ex_customer (Some ex_config) ex_scenario_plain
                \<lparr>stepNum = 0, rows = [headerRow]\<rparr> = Some st'
           \<and> (\<forall>r \<in> set (drop (length (rows \<lparr>stepNum = 0, rows = [headerRow]\<rparr>)) (rows st')).
                r ! 1 \<noteq> JStr ''FLAG VERIFICATION'' \<and> r ! 1 \<noteq> JStr ''Flag Verification''))
   \<and> relevantCategories ex_scenario
       = {''assessment_writeback'', ''documentation'', ''regulatory'', ''bundle_manager''}"
proof -
  have u: "gateUnmatched ex_scenario_plain"
    by (simp add: gateUnmatched_def ex_scenario_plain_def)
  have t: "ehrTerms ex_td (ehr ex_customer) = Some ex_terms_epic"
    by (simp add: ehrTerms_def ex_td_def ex_customer_def)
  have g: "gateCategories ex_scenario
       = {''assessment_writeback'', ''documentation'', ''regulatory'', ''bundle_manager''}"
    by (simp add: gateCategories_def ex_scenario_def insert_commute)
  note plain = relevance_gate [where sc = ex_scenario_plain and td = ex_td and c = ex_customer
      and tm = ex_terms_epic and fd = ex_fd and cfg = "Some ex_config"
      and st = "\<lparr>stepNum = 0, rows = [headerRow]\<rparr>"]
  note full = relevance_gate [where sc = ex_scenario and td = ex_td and c = ex_customer
      and tm = ex_terms_epic and fd = ex_fd and cfg = "Some ex_config"
      and st = "\<lparr>stepNum = 0, rows = [headerRow]\<rparr>"]
  have e: "\<exists>st'. scenarioBlock ex_td ex_fd ex_customer (Some ex_config) ex_scenario_plain
                \<lparr>stepNum = 0, rows = [headerRow]\<rparr> = Some st'
           \<and> (\<forall>r \<in> set (drop (length (rows \<lparr>stepNum = 0, rows = [headerRow]\<rparr>)) (rows st')).
                r ! 1 \<noteq> JStr ''FLAG VERIFICATION'' \<and> r ! 1 \<noteq> JStr ''Flag Verification'')"
    using plain u t by blast
  have ge: "gateCategories ex_scenario_plain = {}"
    using plain u by blast
  have r: "relevantCategories ex_scenario
       = {''assessment_writeback'', ''documentation'', ''regulatory'', ''bundle_manager''}"
    using full g by (simp only:)
  show ?thesis
    using u t ge e r by (intro conjI)
qed


section \<open>Step numbering\<close>

text \<open>
  Claim C1 says that the counter is incremented only for rows that are test actions, so
  that the displayed numbers are 1, 2, 3, ... without gaps. The source increments
  \<^verbatim>\<open>stepNum\<close> before the scenario header row and before the patient-setup row too
  (and not before the Flag Verification, Absence Tests and category headers), while
  it leaves their first cell blank. On the small installation the plan of the customer
  has the first two cells below: the header rows carry no number, and the four test
  actions are numbered 2, 3, 4, 5, the number 1 being used up by the scenario header.
\<close>

theorem stepNumbers_example:
  "map_option (map (\<lambda>r. (r ! 0, r ! 1))) (planRows ex_td ex_fd ex_customer)
    = Some [(JStr ''Test Step #'', JStr ''Section''),
            (JStr [], JStr ''SCENARIO''),
            (JNum 2, JStr ''Setup''),
            (JNum 3, JStr ''Bayesian UI Test''),
            (JStr [], JStr ''FLAG VERIFICATION''),
            (JNum 4, JStr ''Flag Verification''),
            (JStr [], JStr ''ABSENCE TESTS''),
            (JStr [], JStr ''Absence Test''),
            (JNum 5, JStr ''Absence Test'')]"
  by code_simp


section \<open>Part 2: disabled-flag absence tests\<close>

lemma part2Cells_absencePlan:
  "part2Cells td fd c tm = absencePlan td fd c tm (customer_products c)"
  by (simp add: part2Cells_def absencePlan_def Let_def getFlagTests_eq)

lemma part2Rows_closed:
  assumes "ehrTerms td (ehr c) = Some tm"
  shows "part2Rows td fd c
     = Some (counted (part1Cells td fd c tm),
             numberRows (counted (part1Cells td fd c tm)) (absencePlan td fd c tm (customer_products c)))"
  by (simp add: part2Rows_def part1_emit [OF assms] planState_emit [OF assms] emit_def
      numberRows_append part2Cells_absencePlan)

lemma flagTestCells_member:
  assumes "tr \<in> set (flagTestCells td tm section verdict ft)"
  shows "fst tr = Numbered \<and> snd tr ! 0 = JStr section \<and> snd tr ! 4 = JStr verdict"
proof -
  from assms obtain cr where "tr = (Numbered, criterionCells td tm section verdict ft cr)"
    by (auto simp: flagTestCells_def)
  then show ?thesis by (simp add: criterionCells_def)
qed

lemma absenceGroup_member:
  assumes "tr \<in> set (absenceGroup td tm cur fts)"
  shows "fst tr = Plain \<or> (\<exists>ft. tr \<in> set (flagTestCells td tm ''Absence Test'' ''VERIFY ABSENT'' ft))"
proof -
  from assms obtain prev ft where
    "tr \<in> set ((if Some (ft_category ft) \<noteq> prev then [(Plain, tl (categoryRow (ft_category ft)))] else [])
             @ flagTestCells td tm ''Absence Test'' ''VERIFY ABSENT'' ft)"
    unfolding absenceGroup_def by auto
  then show ?thesis by (cases "Some (ft_category ft) \<noteq> prev") auto
qed

lemma absencePlan_kinds:
  assumes "tr \<in> set (absencePlan td fd c tm ps)"
  shows "fst tr \<noteq> Consumes
     \<and> (fst tr = Numbered \<longrightarrow> snd tr ! 0 = JStr ''Absence Test'' \<and> snd tr ! 4 = JStr ''VERIFY ABSENT'')"
proof -
  from assms obtain pk fts where "tr \<in> set (absenceCells td fd tm pk fts)"
    unfolding absencePlan_def by auto
  then have "fst tr = Plain \<or> tr \<in> set (absenceGroup td tm None fts)"
    by (cases "fts = []") (auto simp: absenceCells_def)
  then have "fst tr = Plain \<or> (\<exists>ft. tr \<in> set (flagTestCells td tm ''Absence Test'' ''VERIFY ABSENT'' ft))"
    using absenceGroup_member by blast
  then show ?thesis
    using flagTestCells_member by fastforce
qed

lemma absencePlan_first:
  assumes "selectSide td fd pk (configurations fd (customer_key c)) False whenDisabled \<noteq> []"
  shows "hd (map snd (absencePlan td fd c tm (pk # ps))) = tl (absenceHeaderRow fd pk)"
  using assms by (simp add: absencePlan_def absenceCells_def)

lemma ex_two_disabled:
  "selectSide ex_td ex_fd_two ''falls'' (configurations ex_fd_two (customer_key ex_customer_two)) False whenDisabled \<noteq> []"
  "selectSide ex_td ex_fd_two ''sepsis'' (configurations ex_fd_two (customer_key ex_customer_two)) False whenDisabled \<noteq> []"
  by (simp_all add: selectSide_def selectFlag_def configuredValue_def configBlock_def
      ex_td_def ex_criteria_def ex_fd_two_def ex_customer_two_def)

text \<open>
  Claim C5, as stated, takes the owned products in catalog order. The source iterates
  \<^verbatim>\<open>customer.products\<close>, the customer's own list: for the customer below, who lists
  "falls" before "sepsis" while the product catalog has "sepsis" first, the rows of
  Part 2 are not those of the catalog order.
\<close>

theorem absence_tests_catalog_order_counterexample:
  "part2Follows ex_td ex_fd_two ex_customer_two ex_terms_epic (catalogOrder ex_fd_two ex_customer_two)
     = Some False"
proof -
  have t: "ehrTerms ex_td (ehr ex_customer_two) = Some ex_terms_epic"
    by (simp add: ehrTerms_def ex_td_def ex_customer_two_def)
  have co: "catalogOrder ex_fd_two ex_customer_two = [''sepsis'', ''falls'']"
    by (simp add: catalogOrder_def ex_fd_two_def ex_customer_two_def)
  have cp: "customer_products ex_customer_two = [''falls'', ''sepsis'']"
    by (simp add: ex_customer_two_def)
  have hdr: "tl (absenceHeaderRow ex_fd_two ''falls'') \<noteq> tl (absenceHeaderRow ex_fd_two ''sepsis'')"
    by (simp add: absenceHeaderRow_def productName_def ex_fd_two_def)
  have "numberRows n (absencePlan ex_td ex_fd_two ex_customer_two ex_terms_epic [''falls'', ''sepsis''])
      \<noteq> numberRows n (absencePlan ex_td ex_fd_two ex_customer_two ex_terms_epic [''sepsis'', ''falls''])" for n
  proof
    assume "numberRows n (absencePlan ex_td ex_fd_two ex_customer_two ex_terms_epic [''falls'', ''sepsis''])
      = numberRows n (absencePlan ex_td ex_fd_two ex_customer_two ex_terms_epic [''sepsis'', ''falls''])"
    then have "map snd (absencePlan ex_td ex_fd_two ex_customer_two ex_terms_epic [''falls'', ''sepsis''])
      = map snd (absencePlan ex_td ex_fd_two ex_customer_two ex_terms_epic [''sepsis'', ''falls''])"
      by (metis tl_numberRows)
    then have "tl (absenceHeaderRow ex_fd_two ''falls'') = tl (absenceHeaderRow ex_fd_two ''sepsis'')"
      by (metis absencePlan_first ex_two_disabled)
    with hdr show False by contradiction
  qed
  then show ?thesis
    by (simp add: part2Follows_def part2Rows_closed [OF t] co cp)
qed

text \<open>
  Claim C5, amended. When the terminology table resolves the customer's vendor, Part 2
  is generated and its rows are those of the specification for the products in the order
  of the customer's own product list: per product with at least one disabled-flag test a
  section header, a category sub-header whenever the category differs from that of the
  test before, and one row per criterion, numbered from the counter as Part 1 left it.
  No row of Part 2 uses up a number without showing it, and every numbered row has the
  section "Absence Test" and the expected result "VERIFY ABSENT".
\<close>

theorem absence_tests_part2:
  assumes "ehrTerms td (ehr c) = Some tm"
  shows "part2Follows td fd c tm (customer_products c) = Some True
     \<and> (\<forall>tr \<in> set (absencePlan td fd c tm (customer_products c)).
          fst tr \<noteq> Consumes
          \<and> (fst tr = Numbered \<longrightarrow>
               snd tr ! 0 = JStr ''Absence Test'' \<and> snd tr ! 4 = JStr ''VERIFY ABSENT''))"
  using absencePlan_kinds [of _ td fd c tm "customer_products c"]
  by (simp add: part2Follows_def part2Rows_closed [OF assms])

theorem absence_tests_part2_witness:
  "ehrTerms ex_td (ehr ex_customer_two) = Some ex_terms_epic
   \<and> part2Follows ex_td ex_fd_two ex_customer_two ex_terms_epic (customer_products ex_customer_two)
       = Some True
   \<and> map_option (\<lambda>(n, rs). (n, map (\<lambda>r. (r ! 0, r ! 1)) rs)) (part2Rows ex_td ex_fd_two ex_customer_two)
       = Some (0, [(JStr [], JStr ''ABSENCE TESTS''), (JStr [], JStr ''Absence Test''),
                   (JNum 1, JStr ''Absence Test''), (JStr [], JStr ''ABSENCE TESTS''),
                   (JStr [], JStr ''Absence Test''), (JNum 2, JStr ''Absence Test'')])"
proof -
  have t: "ehrTerms ex_td (ehr ex_customer_two) = Some ex_terms_epic"
    by (simp add: ehrTerms_def ex_td_def ex_customer_two_def)
  have e: "map_option (\<lambda>(n, rs). (n, map (\<lambda>r. (r ! 0, r ! 1)) rs)) (part2Rows ex_td ex_fd_two ex_customer_two)
       = Some (0, [(JStr [], JStr ''ABSENCE TESTS''), (JStr [], JStr ''Absence Test''),
                   (JNum 1, JStr ''Absence Test''), (JStr [], JStr ''ABSENCE TESTS''),
                   (JStr [], JStr ''Absence Test''), (JNum 2, JStr ''Absence Test'')])"
    by code_simp
  from absence_tests_part2 [OF t, of ex_fd_two] t e show ?thesis by blast
qed


section \<open>A customer without configuration\<close>

lemma scenarioApplies_unconfigured:
  "scenarioApplies sc c None \<longleftrightarrow>
     scenario_product sc \<in> set (customer_products c)
     \<and> (requiredFlags sc = None \<or> requiredFlags sc = Some [])"
  by (auto simp: scenarioApplies_iff configBlock_def split: option.splits)

lemma getFlagTests_unconfigured: "getFlagTests td fd c pk None = \<lparr>enabled = [], disabled = []\<rparr>"
  by (simp add: getFlagTests_def)

lemma part1Cells_unconfigured:
  assumes "configurations fd (customer_key c) = None"
  shows "part1Cells td fd c tm
     = concat (map (\<lambda>sc. scenarioCells td tm sc []) (unconfiguredScenarios td c))"
  by (simp add: part1Cells_def assms scenarioFlagTests_def getFlagTests_unconfigured
      scenarioApplies_unconfigured unconfiguredScenarios_def)

lemma part2Cells_unconfigured:
  assumes "configurations fd (customer_key c) = None"
  shows "part2Cells td fd c tm = []"
  by (simp add: part2Cells_def assms getFlagTests_unconfigured absenceCells_def)

lemma unconfiguredPlan_sections:
  assumes "r \<in> set (unconfiguredPlan td c tm)"
  shows "r ! 1 \<notin> flagSections"
proof (cases "r = headerRow")
  case True
  then show ?thesis by (simp add: headerRow_def flagSections_def)
next
  case False
  with assms have "r \<in> set (numberRows 0 (concat (map (\<lambda>sc. scenarioCells td tm sc []) (unconfiguredScenarios td c))))"
    by (simp add: unconfiguredPlan_def)
  from numberRows_section [OF this] obtain tr sc
    where "tr \<in> set (scenarioCells td tm sc [])" "r ! 1 = snd tr ! 0" by auto
  with scenarioCells_no_flags [of tr td tm sc] show ?thesis
    by (auto simp: flagSections_def)
qed

text \<open>
  Claim C10. For a customer whose key has no entry in the configurations document the
  generator still returns a plan (given that the terminology table resolves the
  customer's vendor): the header row followed by the blocks of exactly the scenarios
  whose product the customer owns and whose \<open>requiredFlags\<close> is absent or empty,
  each with its header, optional patient-setup, setup and core rows and no Flag
  Verification section; the plan has no flag-verification row and no absence-test row.
\<close>

theorem unconfigured_customer_plan:
  assumes "configurations fd (customer_key c) = None" and "ehrTerms td (ehr c) = Some tm"
  shows "planRows td fd c = Some (unconfiguredPlan td c tm)
     \<and> generateTestPlan td fd c = Some (join [NEWLINE] (map csvRow (unconfiguredPlan td c tm)))
     \<and> (\<forall>r \<in> set (unconfiguredPlan td c tm). r ! 1 \<notin> flagSections)"
  using unconfiguredPlan_sections [of _ td c tm]
  by (simp add: generateTestPlan_def planRows_closed [OF assms(2)] part1Cells_unconfigured [OF assms(1)]
      part2Cells_unconfigured [OF assms(1)] unconfiguredPlan_def)

theorem unconfigured_customer_plan_witness:
  "configurations ex_fd (customer_key ex_customer_new) = None
   \<and> ehrTerms ex_td_both (ehr ex_customer_new) = Some ex_terms_epic
   \<and> planRows ex_td_both ex_fd ex_customer_new
       = Some (unconfiguredPlan ex_td_both ex_customer_new ex_terms_epic)
   \<and> unconfiguredScenarios ex_td_both ex_customer_new = [ex_scenario_plain]
   \<and> map_option (map (\<lambda>r. (r ! 0, r ! 1))) (planRows ex_td_both ex_fd ex_customer_new)
       = Some [(JStr ''Test Step #'', JStr ''Section''), (JStr [], JStr ''SCENARIO''),
               (JStr [], JStr ''PATIENT SETUP''), (JNum 3, JStr ''Setup'')]"
proof -
  have n: "configurations ex_fd (customer_key ex_customer_new) = None"
    by (simp add: ex_fd_def ex_customer_new_def)
  have t: "ehrTerms ex_td_both (ehr ex_customer_new) = Some ex_terms_epic"
    by (simp add: ehrTerms_def ex_td_both_def ex_td_def ex_customer_new_def)
  have s: "unconfiguredScenarios ex_td_both ex_customer_new = [ex_scenario_plain]"
    by code_simp
  have m: "map_option (map (\<lambda>r. (r ! 0, r ! 1))) (planRows ex_td_both ex_fd ex_customer_new)
       = Some [(JStr ''Test Step #'', JStr ''Section''), (JStr [], JStr ''SCENARIO''),
               (JStr [], JStr ''PATIENT SETUP''), (JNum 3, JStr ''Setup'')]"
    by code_simp
  from unconfigured_customer_plan [OF n t] n t s m show ?thesis by blast
qed


section \<open>Customers that differ in the vendor only\<close>

lemma list_all2_map_same:
  "(\<And>x. x \<in> set xs \<Longrightarrow> P (f x) (g x)) \<Longrightarrow> list_all2 P (map f xs) (map g xs)"
  by (simp add: list_all2_map1 list_all2_map2 list_all2_same)

lemma list_all2_concat_map:
  "(\<And>x. x \<in> set xs \<Longrightarrow> list_all2 P (f x) (g x)) \<Longrightarrow>
     list_all2 P (concat (map f xs)) (concat (map g xs))"
  by (induction xs) (simp_all add: list_all2_appendI)

lemma sameStructure_Cons:
  "sameStructure tm1 tm2 (x # a) (x # b) \<longleftrightarrow> sameStructure tm1 tm2 (JStr [] # a) (JStr [] # b)"
  by (simp add: sameStructure_def)

lemma numberRows_rel:
  assumes "list_all2 (cellsRel tm1 tm2) a b"
  shows "list_all2 (sameStructure tm1 tm2) (numberRows n a) (numberRows n b)"
  using assms
proof (induction a b arbitrary: n rule: list_all2_induct)
  case Nil
  show ?case by simp
next
  case (Cons x xs y ys)
  obtain k cs1 where x: "x = (k, cs1)" by (cases x)
  obtain k' cs2 where y: "y = (k', cs2)" by (cases y)
  from Cons.hyps(1) have k: "k' = k" and s: "sameStructure tm1 tm2 (JStr [] # cs1) (JStr [] # cs2)"
    by (simp_all add: cellsRel_def x y)
  show ?case
    using s Cons.IH by (cases k) (simp_all add: x y k sameStructure_Cons [of tm1 tm2 "JNum _"])
qed

lemma cellsRel_refl: "length cs = 8 \<Longrightarrow> cellsRel tm1 tm2 (k, cs) (k, cs)"
  by (simp add: cellsRel_def sameStructure_def textRel_def)

lemma header_rel:
  "cellsRel tm1 tm2 (k, tl (scenarioHeaderRow sc)) (k, tl (scenarioHeaderRow sc))"
  "cellsRel tm1 tm2 (k, tl (patientRow sc p)) (k, tl (patientRow sc p))"
  "cellsRel tm1 tm2 (k, tl (flagVerificationRow sc)) (k, tl (flagVerificationRow sc))"
  "cellsRel tm1 tm2 (k, tl (absenceHeaderRow fd pk)) (k, tl (absenceHeaderRow fd pk))"
  "cellsRel tm1 tm2 (k, tl (categoryRow cat)) (k, tl (categoryRow cat))"
  by (rule cellsRel_refl, simp add: scenarioHeaderRow_def patientRow_def flagVerificationRow_def
      absenceHeaderRow_def categoryRow_def)+

lemma stepCells_rel:
  "cellsRel tm1 tm2 (Numbered, stepCells td tm1 sc section s) (Numbered, stepCells td tm2 sc section s)"
  by (auto simp: cellsRel_def sameStructure_def textRel_def stepCells_def)

lemma criterionCells_rel:
  "cellsRel tm1 tm2 (Numbered, criterionCells td tm1 section verdict ft cr)
     (Numbered, criterionCells td tm2 section verdict ft cr)"
  by (auto simp: cellsRel_def sameStructure_def textRel_def criterionCells_def)

lemma flagTestCells_rel:
  "list_all2 (cellsRel tm1 tm2) (flagTestCells td tm1 section verdict ft)
     (flagTestCells td tm2 section verdict ft)"
  unfolding flagTestCells_def by (rule list_all2_map_same) (rule criterionCells_rel)

lemma scenarioCells_rel:
  "list_all2 (cellsRel tm1 tm2) (scenarioCells td tm1 sc fts) (scenarioCells td tm2 sc fts)"
proof -
  have p: "list_all2 (cellsRel tm1 tm2)
      (case scenario_patientProfile sc of None \<Rightarrow> [] | Some p \<Rightarrow> [(Consumes, tl (patientRow sc p))])
      (case scenario_patientProfile sc of None \<Rightarrow> [] | Some p \<Rightarrow> [(Consumes, tl (patientRow sc p))])"
    by (cases "scenario_patientProfile sc") (simp_all add: header_rel)
  have s: "list_all2 (cellsRel tm1 tm2)
      (map (\<lambda>s. (Numbered, stepCells td tm1 sc sec s)) steps)
      (map (\<lambda>s. (Numbered, stepCells td tm2 sc sec s)) steps)" for sec steps
    by (rule list_all2_map_same) (rule stepCells_rel)
  have f: "list_all2 (cellsRel tm1 tm2)
      (if fts = [] then []
       else (Plain, tl (flagVerificationRow sc))
            # concat (map (flagTestCells td tm1 ''Flag Verification'' ''VERIFY'') fts))
      (if fts = [] then []
       else (Plain, tl (flagVerificationRow sc))
            # concat (map (flagTestCells td tm2 ''Flag Verification'' ''VERIFY'') fts))"
    by (simp add: header_rel list_all2_concat_map flagTestCells_rel)
  show ?thesis
    unfolding scenarioCells_def
    by (intro list_all2_appendI list.rel_intros header_rel p s f)
qed

lemma absenceGroup_rel:
  "list_all2 (cellsRel tm1 tm2) (absenceGroup td tm1 cur fts) (absenceGroup td tm2 cur fts)"
  unfolding absenceGroup_def
proof (rule list_all2_concat_map)
  fix x :: "string option \<times> flagTest"
  obtain prev ft where x: "x = (prev, ft)" by (cases x)
  show "list_all2 (cellsRel tm1 tm2)
     (case x of (prev, ft) \<Rightarrow>
        (if Some (ft_category ft) \<noteq> prev then [(Plain, tl (categoryRow (ft_category ft)))] else [])
        @ flagTestCells td tm1 ''Absence Test'' ''VERIFY ABSENT'' ft)
     (case x of (prev, ft) \<Rightarrow>
        (if Some (ft_category ft) \<noteq> prev then [(Plain, tl (categoryRow (ft_category ft)))] else [])
        @ flagTestCells td tm2 ''Absence Test'' ''VERIFY ABSENT'' ft)"
    unfolding x prod.case
    by (intro list_all2_appendI flagTestCells_rel) (simp add: header_rel)
qed

lemma absenceCells_rel:
  "list_all2 (cellsRel tm1 tm2) (absenceCells td fd tm1 pk fts) (absenceCells td fd tm2 pk fts)"
  by (simp add: absenceCells_def header_rel absenceGroup_rel)

lemma ehr_irrelevant:
  "scenarioApplies sc (c\<lparr>ehr := e\<rparr>) cfg = scenarioApplies sc c cfg"
  "getFlagTests td fd (c\<lparr>ehr := e\<rparr>) pk cfg = getFlagTests td fd c pk cfg"
  "scenarioFlagTests td fd (c\<lparr>ehr := e\<rparr>) cfg sc = scenarioFlagTests td fd c cfg sc"
  by (simp_all add: scenarioApplies_def getFlagTests_def scenarioFlagTests_def)

lemma part1Cells_rel:
  "list_all2 (cellsRel tm1 tm2) (part1Cells td fd c tm1) (part1Cells td fd (c\<lparr>ehr := e\<rparr>) tm2)"
  by (simp add: part1Cells_def Let_def ehr_irrelevant list_all2_concat_map scenarioCells_rel)

lemma part2Cells_rel:
  "list_all2 (cellsRel tm1 tm2) (part2Cells td fd c tm1) (part2Cells td fd (c\<lparr>ehr := e\<rparr>) tm2)"
  by (simp add: part2Cells_def Let_def ehr_irrelevant list_all2_concat_map absenceCells_rel)

lemma headerRow_same: "sameStructure tm1 tm2 headerRow headerRow"
  by (simp add: sameStructure_def headerRow_def textRel_def)

text \<open>
  Claim C9. Two customers that differ only in their EHR vendor key (and whose vendors
  the terminology table resolves) get plans with the same number of rows and the same
  structure: row by row the same step number, section, scenario or flag identifier, role
  and result columns, while description and expected result are equal or are the
  resolutions of one text under the two vendors' terms.
\<close>

theorem vendor_only_changes_terminology:
  assumes "ehrTerms td (ehr c) = Some tm1" and "ehrTerms td e2 = Some tm2"
  shows "\<exists>rs1 rs2. planRows td fd c = Some rs1 \<and> planRows td fd (c\<lparr>ehr := e2\<rparr>) = Some rs2
           \<and> length rs1 = length rs2 \<and> list_all2 (sameStructure tm1 tm2) rs1 rs2"
proof -
  let ?rs1 = "headerRow # numberRows 0 (part1Cells td fd c tm1 @ part2Cells td fd c tm1)"
  let ?rs2 = "headerRow # numberRows 0
      (part1Cells td fd (c\<lparr>ehr := e2\<rparr>) tm2 @ part2Cells td fd (c\<lparr>ehr := e2\<rparr>) tm2)"
  have 1: "planRows td fd c = Some ?rs1"
    by (rule planRows_closed [OF assms(1)])
  have "ehrTerms td (ehr (c\<lparr>ehr := e2\<rparr>)) = Some tm2"
    using assms(2) by simp
  then have 2: "planRows td fd (c\<lparr>ehr := e2\<rparr>) = Some ?rs2"
    by (rule planRows_closed)
  have r: "list_all2 (sameStructure tm1 tm2) ?rs1 ?rs2"
    by (intro list.rel_intros headerRow_same numberRows_rel list_all2_appendI part1Cells_rel
        part2Cells_rel)
  then have "length ?rs1 = length ?rs2"
    by (rule list_all2_lengthD)
  with 1 2 r show ?thesis by blast
qed

theorem vendor_only_changes_terminology_witness:
  "ehrTerms ex_td_vendors (ehr ex_customer) = Some ex_terms_cerner
   \<and> ehrTerms ex_td_vendors ''Epic'' = Some ex_terms_epic
   \<and> (\<exists>rs1 rs2. planRows ex_td_vendors ex_fd ex_customer = Some rs1
          \<and> planRows ex_td_vendors ex_fd (ex_customer\<lparr>ehr := ''Epic''\<rparr>) = Some rs2
          \<and> length rs1 = length rs2
          \<and> list_all2 (sameStructure ex_terms_cerner ex_terms_epic) rs1 rs2)
   \<and> map_option (\<lambda>rs. rs ! 2 ! 4) (planRows ex_td_vendors ex_fd ex_customer)
       = Some (JStr ''Open iView'')
   \<and> map_option (\<lambda>rs. rs ! 2 ! 4) (planRows ex_td_vendors ex_fd (ex_customer\<lparr>ehr := ''Epic''\<rparr>))
       = Some (JStr ''Open Flowsheet'')"
proof -
  have t1: "ehrTerms ex_td_vendors (ehr ex_customer) = Some ex_terms_cerner"
    by (simp add: ehrTerms_def ex_td_vendors_def ex_td_def ex_customer_def)
  have t2: "ehrTerms ex_td_vendors ''Epic'' = Some ex_terms_epic"
    by (simp add: ehrTerms_def ex_td_vendors_def ex_td_def)
  have e1: "map_option (\<lambda>rs. rs ! 2 ! 4) (planRows ex_td_vendors ex_fd ex_customer)
       = Some (JStr ''Open iView'')"
    by code_simp
  have e2: "map_option (\<lambda>rs. rs ! 2 ! 4) (planRows ex_td_vendors ex_fd (ex_customer\<lparr>ehr := ''Epic''\<rparr>))
       = Some (JStr ''Open Flowsheet'')"
    by code_simp
  from vendor_only_changes_terminology [OF t1 t2, of ex_fd] t1 t2 e1 e2 show ?thesis by blast
qed


section \<open>Tabular writer\<close>

lemma csvEscape_cases:
  "csvEscape v = (if needsQuoting (cellText v) then [DQUOTE] @ doubleQuotes (cellText v) @ [DQUOTE]
                  else cellText v)"
  by (cases v) (simp_all add: needsQuoting_def cellText_def doubleQuotes_def Let_def)

lemma read_unquoted:
  assumes "\<not> needsQuoting s" and "CRETURN \<notin> set s" and "separated rest"
  shows "readFrom Unquoted f r rs (s @ rest) = afterField (f @ s) r rs rest"
  using assms(1,2)
proof (induction s arbitrary: f)
  case Nil
  show ?case using assms(3)
    by (cases rest) (auto simp: afterField_def separated_def)
next
  case (Cons c s)
  then have "c \<noteq> COMMA" "c \<noteq> DQUOTE" "c \<noteq> NEWLINE" "c \<noteq> CRETURN"
    "\<not> needsQuoting s" "CRETURN \<notin> set s"
    by (auto simp: needsQuoting_def)
  with Cons.IH [of "f @ [c]"] show ?case by simp
qed

lemma doubleQuotes_simps:
  "doubleQuotes [] = []"
  "doubleQuotes (c # s) = (if c = DQUOTE then [DQUOTE, DQUOTE] else [c]) @ doubleQuotes s"
  by (simp_all add: doubleQuotes_def)

lemma read_quoted:
  "readFrom Quoted f r rs (doubleQuotes s @ DQUOTE # rest) = readFrom QuoteSeen (f @ s) r rs rest"
proof (induction s arbitrary: f)
  case Nil
  show ?case by (simp add: doubleQuotes_simps)
next
  case (Cons c s)
  show ?case
    using Cons.IH [of "f @ [c]"] by (cases "c = DQUOTE") (simp_all add: doubleQuotes_simps)
qed

lemma read_quoteSeen:
  assumes "separated rest"
  shows "readFrom QuoteSeen f r rs rest = afterField f r rs rest"
  using assms by (cases rest) (auto simp: afterField_def separated_def)

lemma read_field:
  assumes "separated rest" and "readable v"
  shows "readFrom FieldStart [] r rs (csvEscape v @ rest) = afterField (cellText v) r rs rest"
proof (cases "needsQuoting (cellText v)")
  case True
  then show ?thesis
    using read_quoted [of "[]" r rs "cellText v" rest] read_quoteSeen [OF assms(1)]
    by (simp add: csvEscape_cases)
next
  case False
  with assms(2) have cr: "CRETURN \<notin> set (cellText v)"
    by (simp add: readable_def)
  show ?thesis
  proof (cases "cellText v")
    case Nil
    then show ?thesis using False assms(1)
      by (cases rest) (auto simp: csvEscape_cases afterField_def separated_def)
  next
    case (Cons c s)
    with False cr have "c \<noteq> COMMA" "c \<noteq> DQUOTE" "c \<noteq> NEWLINE" "c \<noteq> CRETURN"
      and s: "\<not> needsQuoting s" "CRETURN \<notin> set s"
      by (auto simp: needsQuoting_def)
    then show ?thesis
      using read_unquoted [OF s assms(1), of "[c]" r rs] False Cons
      by (simp add: csvEscape_cases)
  qed
qed

lemma read_row:
  assumes "rest = [] \<or> hd rest = NEWLINE" and "vs \<noteq> []"
  shows "\<forall>v \<in> set vs. readable v \<Longrightarrow>
     readFrom FieldStart [] r rs (csvRow vs @ rest)
     = (case rest of [] \<Rightarrow> Some (rs @ [r @ map cellText vs])
        | c # cs \<Rightarrow> readFrom FieldStart [] [] (rs @ [r @ map cellText vs]) cs)"
  using assms(2)
proof (induction vs arbitrary: r rule: list_nonempty_induct)
  case (single v)
  have "separated rest" using assms(1) by (auto simp: separated_def)
  from read_field [OF this, of v r rs] single.prems show ?case
    using assms(1) by (cases rest) (auto simp: csvRow_def afterField_def)
next
  case (cons v vs)
  obtain w ws where vs: "vs = w # ws" using cons.hyps by (cases vs) auto
  have j: "csvRow (v # vs) = csvEscape v @ COMMA # csvRow vs"
    by (simp add: csvRow_def vs)
  have "readable v" using cons.prems by simp
  then have "readFrom FieldStart [] r rs (csvRow (v # vs) @ rest)
      = afterField (cellText v) r rs (COMMA # csvRow vs @ rest)"
    using read_field [of "COMMA # csvRow vs @ rest" v r rs] by (simp add: j separated_def)
  also have "\<dots> = readFrom FieldStart [] (r @ [cellText v]) rs (csvRow vs @ rest)"
    by (simp add: afterField_def)
  finally show ?case
    using cons.IH [of "r @ [cellText v]"] cons.prems by (cases rest) simp_all
qed

lemma read_rows:
  assumes "tbl \<noteq> []" and "\<forall>vs \<in> set tbl. vs \<noteq> [] \<and> (\<forall>v \<in> set vs. readable v)"
  shows "readFrom FieldStart [] [] rs (join [NEWLINE] (map csvRow tbl))
     = Some (rs @ map (map cellText) tbl)"
  using assms
proof (induction tbl arbitrary: rs rule: list_nonempty_induct)
  case (single vs)
  then show ?case
    using read_row [of "[]" vs "[]" rs] by simp
next
  case (cons vs tbl)
  obtain w ws where tbl: "tbl = w # ws" using cons.hyps by (cases tbl) auto
  have j: "join [NEWLINE] (map csvRow (vs # tbl)) = csvRow vs @ NEWLINE # join [NEWLINE] (map csvRow tbl)"
    by (simp add: tbl)
  have vs: "vs \<noteq> []" "\<forall>v \<in> set vs. readable v" using cons.prems by simp_all
  from read_row [of "NEWLINE # join [NEWLINE] (map csvRow tbl)" vs "[]" rs, OF _ vs]
  have "readFrom FieldStart [] [] rs (join [NEWLINE] (map csvRow (vs # tbl)))
      = readFrom FieldStart [] [] (rs @ [map cellText vs]) (join [NEWLINE] (map csvRow tbl))"
    unfolding j by simp
  then show ?case
    using cons.IH [of "rs @ [map cellText vs]"] cons.prems by simp
qed

text \<open>
  What does hold of the writer: \<^verbatim>\<open>null\<close> and \<^verbatim>\<open>undefined\<close> are empty fields, a field
  with a comma, a quote or a line feed is wrapped in quotes with its quotes doubled, every
  other field is emitted as it is; and a row or a table whose unquoted cells have no
  carriage return is read back as the texts of its cells.
\<close>

lemma csv_roundtrip_readable:
  "csvEscape JNull = [] \<and> csvEscape JUndefined = []
   \<and> (needsQuoting (cellText v) \<longrightarrow> csvEscape v = [DQUOTE] @ doubleQuotes (cellText v) @ [DQUOTE])
   \<and> (\<not> needsQuoting (cellText v) \<longrightarrow> csvEscape v = cellText v)
   \<and> (vs \<noteq> [] \<and> (\<forall>v \<in> set vs. readable v) \<longrightarrow> readCsv (csvRow vs) = Some [map cellText vs])
   \<and> (tbl \<noteq> [] \<and> (\<forall>r \<in> set tbl. r \<noteq> [] \<and> (\<forall>v \<in> set r. readable v)) \<longrightarrow>
        readCsv (join [NEWLINE] (map csvRow tbl)) = Some (map (map cellText) tbl))"
proof -
  have r: "readCsv (csvRow vs) = Some [map cellText vs]" if "vs \<noteq> []" "\<forall>v \<in> set vs. readable v"
    using read_row [of "[]" vs "[]" "[]"] that by (simp add: readCsv_def)
  have t: "readCsv (join [NEWLINE] (map csvRow tbl)) = Some (map (map cellText) tbl)"
    if "tbl \<noteq> []" "\<forall>r \<in> set tbl. r \<noteq> [] \<and> (\<forall>v \<in> set r. readable v)"
    using read_rows [OF that, of "[]"] by (simp add: readCsv_def)
  have n: "csvEscape JNull = []" "csvEscape JUndefined = []"
    by simp_all
  have q: "needsQuoting (cellText v) \<longrightarrow> csvEscape v = [DQUOTE] @ doubleQuotes (cellText v) @ [DQUOTE]"
    "\<not> needsQuoting (cellText v) \<longrightarrow> csvEscape v = cellText v"
    by (simp_all add: csvEscape_cases)
  from n q r t show ?thesis by blast
qed

lemma csv_roundtrip_example:
  "readCsv (csvRow [JStr ex_text, JStr ''Shown'', JNull]) = Some [[ex_text, ''Shown'', []]]"
proof -
  have "\<forall>v \<in> set [JStr ex_text, JStr ''Shown'', JNull]. readable v"
    by (simp add: readable_def needsQuoting_def cellText_def ex_text_def)
  with csv_roundtrip_readable [of _ "[JStr ex_text, JStr ''Shown'', JNull]"]
  have "readCsv (csvRow [JStr ex_text, JStr ''Shown'', JNull])
      = Some [map cellText [JStr ex_text, JStr ''Shown'', JNull]]"
    by blast
  then show ?thesis by (simp add: cellText_def)
qed

text \<open>
  Claim C8 promises the round trip for every step text. \<^verbatim>\<open>csvEscape\<close> tests for the
  comma, the quote and the line feed only, so that a text with a carriage return and none
  of these is written without quotes, and the reader ends the record at the carriage
  return: the row of the two texts \<^verbatim>\<open>a\<close>, carriage return, \<^verbatim>\<open>b\<close> and \<^verbatim>\<open>c\<close> is read back
  as the two records \<^verbatim>\<open>a\<close> and \<^verbatim>\<open>b,c\<close>.
\<close>

theorem csv_carriage_return_splits:
  "csvEscape (JStr ex_cr_text) = ex_cr_text
   \<and> csvRow [JStr ex_cr_text, JStr ''c''] = [CHR ''a'', CRETURN, CHR ''b'', COMMA, CHR ''c'']
   \<and> readCsv (csvRow [JStr ex_cr_text, JStr ''c'']) = Some [[''a''], [''b'', ''c'']]"
  by (simp add: csvRow_def ex_cr_text_def readCsv_def)


section \<open>One pass and several passes of substitution\<close>

lemma getSubstitution_plain: "DOLLAR \<notin> set w \<Longrightarrow> getSubstitution m b a w = w"
  by (induction m b a w rule: getSubstitution.induct) auto

lemma isTokenE:
  assumes "isToken t"
  obtains name where "t = LBRACE # name @ [RBRACE]" "LBRACE \<notin> set name" "RBRACE \<notin> set name"
proof -
  from assms have "2 \<le> length t" by (simp add: isToken_def)
  then obtain c d r' where "t = c # d # r'"
    by (metis Suc_le_length_iff numeral_2_eq_2)
  then obtain r where t: "t = c # r" and "r \<noteq> []"
    by simp
  with assms have "c = LBRACE" "last r = RBRACE" "LBRACE \<notin> set (butlast r)" "RBRACE \<notin> set (butlast r)"
    by (auto simp: isToken_def)
  moreover have "r = butlast r @ [last r]"
    using \<open>r \<noteq> []\<close> by simp
  ultimately show ?thesis
    using that [of "butlast r"] t by metis
qed

lemma isTokenI:
  "LBRACE \<notin> set name \<Longrightarrow> RBRACE \<notin> set name \<Longrightarrow> isToken (LBRACE # name @ [RBRACE])"
  by (simp add: isToken_def)

lemma first_closing:
  assumes "u @ RBRACE # x = v @ RBRACE # y" and "RBRACE \<notin> set u" and "RBRACE \<notin> set v"
  shows "u = v \<and> x = y"
  using assms
proof (induction u arbitrary: v)
  case Nil
  then show ?case by (cases v) auto
next
  case (Cons c u)
  then show ?case by (cases v) auto
qed

lemma token_prefix_unique:
  assumes "isToken t" and "prefix t (LBRACE # u @ RBRACE # r)" and "RBRACE \<notin> set u"
  shows "t = LBRACE # u @ [RBRACE]"
proof -
  from assms(1) obtain name where t: "t = LBRACE # name @ [RBRACE]" and n: "RBRACE \<notin> set name"
    by (rule isTokenE)
  from assms(2) obtain z where "LBRACE # u @ RBRACE # r = t @ z"
    by (auto simp: prefix_def)
  then have "u @ RBRACE # r = name @ RBRACE # z"
    by (simp add: t)
  from first_closing [OF this assms(3) n] show ?thesis
    by (simp add: t)
qed

lemma token_no_prefix_open:
  assumes "isToken t" and "RBRACE \<notin> set u"
  shows "\<not> prefix t (LBRACE # u)"
proof
  assume "prefix t (LBRACE # u)"
  then obtain z where "LBRACE # u = t @ z" by (auto simp: prefix_def)
  moreover from assms(1) obtain name where "t = LBRACE # name @ [RBRACE]" by (rule isTokenE)
  ultimately have "RBRACE \<in> set u" by auto
  with assms(2) show False by contradiction
qed

lemma token_no_prefix_other:
  assumes "isToken t" and "c \<noteq> LBRACE"
  shows "\<not> prefix t (c # cs)"
  using assms by (auto elim!: isTokenE simp: prefix_def)

lemma token_nonempty: "isToken t \<Longrightarrow> t \<noteq> []"
  by (auto simp: isToken_def)


declare replaceAll.simps [simp del]
declare substAll.simps [simp del]

lemma replaceAll_Nil: "replaceAll tok w pre [] = []"
  by (simp add: replaceAll.simps)

lemma replaceAll_match:
  assumes "tok \<noteq> []" and "DOLLAR \<notin> set w"
  shows "replaceAll tok w pre (tok @ rest) = w @ replaceAll tok w (pre @ tok) rest"
  using assms by (subst replaceAll.simps) (simp add: getSubstitution_plain)

lemma replaceAll_skip:
  assumes "\<not> prefix tok (c # cs)"
  shows "replaceAll tok w pre (c # cs) = c # replaceAll tok w (pre @ [c]) cs"
  using assms by (subst replaceAll.simps) simp

lemma replaceAll_pass:
  assumes "isToken tok" and "LBRACE \<notin> set u"
  shows "replaceAll tok w pre (u @ rest) = u @ replaceAll tok w (pre @ u) rest"
  using assms(2)
proof (induction u arbitrary: pre)
  case Nil
  show ?case by simp
next
  case (Cons c u)
  then have "c \<noteq> LBRACE" and u: "LBRACE \<notin> set u" by auto
  from token_no_prefix_other [OF assms(1) this(1)]
  have "replaceAll tok w pre ((c # u) @ rest) = c # replaceAll tok w (pre @ [c]) (u @ rest)"
    by (simp add: replaceAll_skip)
  then show ?case by (simp add: Cons.IH [OF u])
qed

lemma tokenAt_other:
  assumes "tokenKeys al" and "c \<noteq> LBRACE"
  shows "tokenAt al (c # cs) = None"
  using assms token_no_prefix_other
  by (auto simp: tokenAt_def find_None_iff tokenKeys_def list_all_iff)

lemma tokenAt_open:
  assumes "tokenKeys al" and "RBRACE \<notin> set u"
  shows "tokenAt al (LBRACE # u) = None"
  using assms token_no_prefix_open
  by (auto simp: tokenAt_def find_None_iff tokenKeys_def list_all_iff)

lemma tokenAt_token:
  assumes "tokenKeys al" and "RBRACE \<notin> set u"
  shows "tokenAt al (LBRACE # u @ RBRACE # r) = find (\<lambda>p. fst p = LBRACE # u @ [RBRACE]) al"
  unfolding tokenAt_def
proof (rule find_cong [OF refl])
  fix p assume "p \<in> set al"
  with assms(1) have t: "isToken (fst p)"
    by (simp add: tokenKeys_def list_all_iff)
  show "(fst p \<noteq> [] \<and> prefix (fst p) (LBRACE # u @ RBRACE # r)) = (fst p = LBRACE # u @ [RBRACE])"
  proof
    assume "fst p \<noteq> [] \<and> prefix (fst p) (LBRACE # u @ RBRACE # r)"
    with token_prefix_unique [OF t _ assms(2)] show "fst p = LBRACE # u @ [RBRACE]" by blast
  next
    assume "fst p = LBRACE # u @ [RBRACE]"
    then show "fst p \<noteq> [] \<and> prefix (fst p) (LBRACE # u @ RBRACE # r)"
      by (simp add: prefix_def)
  qed
qed

lemma substAll_Nil: "substAll al [] = []"
  by (simp add: substAll.simps)

lemma substAll_None:
  assumes "tokenAt al (c # cs) = None"
  shows "substAll al (c # cs) = c # substAll al cs"
  using assms by (subst substAll.simps) simp

lemma substAll_Some:
  assumes "tokenAt al (t @ r) = Some (t, w)" and "t \<noteq> []"
  shows "substAll al (t @ r) = w @ substAll al r"
  using assms by (subst substAll.simps) simp

lemma substAll_pass:
  assumes "tokenKeys al" and "LBRACE \<notin> set u"
  shows "substAll al (u @ rest) = u @ substAll al rest"
  using assms(2)
proof (induction u)
  case Nil
  show ?case by simp
next
  case (Cons c u)
  then have "c \<noteq> LBRACE" and u: "LBRACE \<notin> set u" by auto
  from tokenAt_other [OF assms(1) this(1)] show ?case
    by (simp add: substAll_None Cons.IH [OF u])
qed

lemma noNesting_split:
  assumes "noNesting True cs"
  shows "\<exists>u rest. cs = u @ rest \<and> LBRACE \<notin> set u \<and> RBRACE \<notin> set u
           \<and> (rest = [] \<or> (\<exists>r. rest = RBRACE # r \<and> noNesting False r))"
  using assms
proof (induction cs)
  case Nil
  then show ?case by simp
next
  case (Cons c cs)
  show ?case
  proof (cases "c = RBRACE")
    case True
    with Cons.prems have "noNesting False cs" by simp
    with True have "c # cs = [] @ (RBRACE # cs) \<and> noNesting False cs" by simp
    then show ?thesis by (metis empty_iff list.set(1))
  next
    case False
    with Cons.prems have c: "c \<noteq> LBRACE" and "noNesting True cs"
      by (auto split: if_splits)
    from Cons.IH [OF this(2)] obtain u rest where
      "cs = u @ rest" "LBRACE \<notin> set u" "RBRACE \<notin> set u"
      "rest = [] \<or> (\<exists>r. rest = RBRACE # r \<and> noNesting False r)" by blast
    with c False have "c # cs = (c # u) @ rest \<and> LBRACE \<notin> set (c # u) \<and> RBRACE \<notin> set (c # u)
        \<and> (rest = [] \<or> (\<exists>r. rest = RBRACE # r \<and> noNesting False r))"
      by auto
    then show ?thesis by blast
  qed
qed



lemma find_key_append:
  "find (\<lambda>p. fst p = T) (al @ [(tok, w)])
     = (case find (\<lambda>p. fst p = T) al of
          Some p \<Rightarrow> Some p
        | None \<Rightarrow> if tok = T then Some (tok, w) else None)"
  by (induction al) auto

lemma find_key_fst: "find (\<lambda>p. fst p = T) al = Some p \<Longrightarrow> fst p = T \<and> p \<in> set al"
  by (auto simp: find_Some_iff)

lemma substAll_literal:
  assumes "tokenKeys al" and "LBRACE \<notin> set u"
    and "tokenAt al (LBRACE # u @ RBRACE # r) = None"
  shows "substAll al (LBRACE # u @ RBRACE # r) = LBRACE # u @ RBRACE # substAll al r"
proof -
  have "substAll al (LBRACE # u @ RBRACE # r) = LBRACE # substAll al (u @ RBRACE # r)"
    using assms(3) by (rule substAll_None)
  also have "substAll al (u @ RBRACE # r) = u @ substAll al (RBRACE # r)"
    by (rule substAll_pass [OF assms(1,2)])
  also have "substAll al (RBRACE # r) = RBRACE # substAll al r"
    by (rule substAll_None) (rule tokenAt_other [OF assms(1)], simp)
  finally show ?thesis .
qed

lemma substAll_token:
  assumes "tokenAt al (LBRACE # u @ RBRACE # r) = Some (LBRACE # u @ [RBRACE], w)"
  shows "substAll al (LBRACE # u @ RBRACE # r) = w @ substAll al r"
proof -
  have "tokenAt al ((LBRACE # u @ [RBRACE]) @ r) = Some (LBRACE # u @ [RBRACE], w)"
    using assms by simp
  then have "substAll al ((LBRACE # u @ [RBRACE]) @ r) = w @ substAll al r"
    by (rule substAll_Some) simp
  then show ?thesis by simp
qed

lemma substAll_open:
  assumes "tokenKeys al" and "LBRACE \<notin> set u" and "RBRACE \<notin> set u"
  shows "substAll al (LBRACE # u) = LBRACE # u"
proof -
  have "substAll al (LBRACE # u) = LBRACE # substAll al u"
    by (rule substAll_None) (rule tokenAt_open [OF assms(1,3)])
  also have "substAll al u = u"
    using substAll_pass [OF assms(1,2), of "[]"] by (simp add: substAll_Nil)
  finally show ?thesis .
qed

lemma replaceAll_open:
  assumes "isToken tok" and "LBRACE \<notin> set u" and "RBRACE \<notin> set u"
  shows "replaceAll tok w pre (LBRACE # u) = LBRACE # u"
proof -
  have "replaceAll tok w pre (LBRACE # u) = LBRACE # replaceAll tok w (pre @ [LBRACE]) u"
    by (rule replaceAll_skip) (rule token_no_prefix_open [OF assms(1,3)])
  also have "replaceAll tok w (pre @ [LBRACE]) u = u"
    using replaceAll_pass [OF assms(1,2), of w "pre @ [LBRACE]" "[]"] by (simp add: replaceAll_Nil)
  finally show ?thesis .
qed

lemma replaceAll_literal:
  assumes "isToken tok" and "LBRACE \<notin> set u" and "RBRACE \<notin> set u"
    and "tok \<noteq> LBRACE # u @ [RBRACE]"
  shows "replaceAll tok w pre (LBRACE # u @ RBRACE # x)
     = LBRACE # u @ RBRACE # replaceAll tok w (pre @ LBRACE # u @ [RBRACE]) x"
proof -
  have np: "\<not> prefix tok (LBRACE # u @ RBRACE # x)"
    using token_prefix_unique [OF assms(1) _ assms(3), of x] assms(4) by blast
  have "replaceAll tok w pre (LBRACE # u @ RBRACE # x)
      = LBRACE # replaceAll tok w (pre @ [LBRACE]) (u @ RBRACE # x)"
    using np by (rule replaceAll_skip)
  also have "replaceAll tok w (pre @ [LBRACE]) (u @ RBRACE # x)
      = u @ replaceAll tok w ((pre @ [LBRACE]) @ u) (RBRACE # x)"
    by (rule replaceAll_pass [OF assms(1,2)])
  also have "replaceAll tok w ((pre @ [LBRACE]) @ u) (RBRACE # x)
      = RBRACE # replaceAll tok w (((pre @ [LBRACE]) @ u) @ [RBRACE]) x"
    by (rule replaceAll_skip) (rule token_no_prefix_other [OF assms(1)], simp)
  finally show ?thesis by simp
qed

lemma replaceAll_token:
  assumes "DOLLAR \<notin> set w"
  shows "replaceAll (LBRACE # u @ [RBRACE]) w pre (LBRACE # u @ RBRACE # x)
     = w @ replaceAll (LBRACE # u @ [RBRACE]) w (pre @ LBRACE # u @ [RBRACE]) x"
  using replaceAll_match [of "LBRACE # u @ [RBRACE]" w pre x, OF _ assms] by simp


lemma replace_in_substituted:
  assumes tok: "isToken tok"
    and keys: "tokenKeys al"
    and vals: "list_all (\<lambda>p. LBRACE \<notin> set (snd p)) al"
    and w: "DOLLAR \<notin> set w"
  shows "noNesting b s \<Longrightarrow> replaceAll tok w pre (substAll al s) = substAll (al @ [(tok, w)]) s"
proof (induction s arbitrary: b pre rule: length_induct)
  case (1 s)
  let ?al' = "al @ [(tok, w)]"
  have keys': "tokenKeys ?al'"
    using keys tok by (simp add: tokenKeys_def)
  have IH: "replaceAll tok w pre' (substAll al r) = substAll ?al' r"
    if "length r < length s" "noNesting b' r" for r b' pre'
    using "1.IH" that by blast
  show ?case
  proof (cases s)
    case Nil
    then show ?thesis by (simp add: substAll_Nil replaceAll_Nil)
  next
    case (Cons c cs)
    show ?thesis
    proof (cases "c = LBRACE")
      case False
      from "1.prems" Cons False obtain b' where "noNesting b' cs"
        by (cases "c = RBRACE") auto
      then have ih: "replaceAll tok w (pre @ [c]) (substAll al cs) = substAll ?al' cs"
        by (intro IH) (simp add: Cons)
      have "substAll al s = c # substAll al cs"
        unfolding Cons by (rule substAll_None) (rule tokenAt_other [OF keys False])
      moreover have "substAll ?al' s = c # substAll ?al' cs"
        unfolding Cons by (rule substAll_None) (rule tokenAt_other [OF keys' False])
      moreover have "replaceAll tok w pre (c # substAll al cs)
          = c # replaceAll tok w (pre @ [c]) (substAll al cs)"
        by (rule replaceAll_skip) (rule token_no_prefix_other [OF tok False])
      ultimately show ?thesis using ih by simp
    next
      case True
      with "1.prems" Cons have "noNesting True cs" by simp
      from noNesting_split [OF this] obtain u rest where
        cs: "cs = u @ rest" and uo: "LBRACE \<notin> set u" and uc: "RBRACE \<notin> set u"
        and rest: "rest = [] \<or> (\<exists>r. rest = RBRACE # r \<and> noNesting False r)" by blast
      from rest show ?thesis
      proof
        assume "rest = []"
        then have s: "s = LBRACE # u" by (simp add: Cons True cs)
        show ?thesis
          unfolding s
          by (simp only: substAll_open [OF keys uo uc] substAll_open [OF keys' uo uc]
              replaceAll_open [OF tok uo uc])
      next
        assume "\<exists>r. rest = RBRACE # r \<and> noNesting False r"
        then obtain r where rest: "rest = RBRACE # r" and nr: "noNesting False r" by blast
        let ?T = "LBRACE # u @ [RBRACE]"
        have s: "s = LBRACE # u @ RBRACE # r" by (simp add: Cons True cs rest)
        have lr: "length r < length s" by (simp add: s)
        have ih: "replaceAll tok w pre' (substAll al r) = substAll ?al' r" for pre'
          by (rule IH [OF lr nr])
        have at: "tokenAt al (LBRACE # u @ RBRACE # r) = find (\<lambda>p. fst p = ?T) al"
          by (rule tokenAt_token [OF keys uc])
        have at': "tokenAt ?al' (LBRACE # u @ RBRACE # r) = find (\<lambda>p. fst p = ?T) ?al'"
          by (rule tokenAt_token [OF keys' uc])
        show ?thesis
        proof (cases "find (\<lambda>p. fst p = ?T) al")
          case (Some p)
          have p: "fst p = ?T" "p \<in> set al"
            using find_key_fst [OF Some] by simp_all
          define wT where "wT = snd p"
          have pw: "p = (?T, wT)"
            using p(1) by (simp add: wT_def prod_eq_iff)
          from p(2) vals have wo: "LBRACE \<notin> set wT"
            unfolding wT_def list_all_iff by blast
          have a: "substAll al s = wT @ substAll al r"
            unfolding s by (rule substAll_token) (simp only: at Some pw)
          have "find (\<lambda>p. fst p = ?T) ?al' = Some p"
            by (simp only: find_key_append Some option.case)
          then have a': "substAll ?al' s = wT @ substAll ?al' r"
            unfolding s by (intro substAll_token) (simp only: at' pw)
          have "replaceAll tok w pre (wT @ substAll al r) = wT @ replaceAll tok w (pre @ wT) (substAll al r)"
            by (rule replaceAll_pass [OF tok wo])
          then show ?thesis by (simp only: a a' ih)
        next
          case None
          have a: "substAll al s = LBRACE # u @ RBRACE # substAll al r"
            unfolding s by (rule substAll_literal [OF keys uo]) (simp only: at None)
          show ?thesis
          proof (cases "tok = ?T")
            case True
            have "find (\<lambda>p. fst p = ?T) ?al' = Some (?T, w)"
              by (simp add: find_key_append None True)
            then have a': "substAll ?al' s = w @ substAll ?al' r"
              unfolding s by (intro substAll_token) (simp only: at')
            have "replaceAll tok w pre (LBRACE # u @ RBRACE # substAll al r)
                = w @ replaceAll tok w (pre @ ?T) (substAll al r)"
              unfolding True by (rule replaceAll_token [OF w])
            then show ?thesis by (simp only: a a' ih)
          next
            case False
            have "find (\<lambda>p. fst p = ?T) ?al' = None"
              using False by (simp add: find_key_append None)
            then have a': "substAll ?al' s = LBRACE # u @ RBRACE # substAll ?al' r"
              unfolding s by (intro substAll_literal [OF keys' uo]) (simp only: at')
            have "replaceAll tok w pre (LBRACE # u @ RBRACE # substAll al r)
                = LBRACE # u @ RBRACE # replaceAll tok w (pre @ ?T) (substAll al r)"
              by (rule replaceAll_literal [OF tok uo uc False])
            then show ?thesis by (simp only: a a' ih)
          qed
        qed
      qed
    qed
  qed
qed


lemma tokens_prefix_same:
  assumes "isToken t1" and "isToken t2" and "prefix t1 s" and "prefix t2 s"
  shows "t1 = t2"
proof -
  from assms(1) obtain n1 where t1: "t1 = LBRACE # n1 @ [RBRACE]" and n1: "RBRACE \<notin> set n1"
    by (rule isTokenE)
  from assms(3) obtain z where "s = t1 @ z" by (auto simp: prefix_def)
  then have "prefix t2 (LBRACE # n1 @ RBRACE # z)"
    using assms(4) by (simp add: t1)
  from token_prefix_unique [OF assms(2) this n1] show ?thesis
    by (simp add: t1)
qed

lemma substAll_cong:
  assumes "\<And>s'. tokenAt al s' = tokenAt al' s'"
  shows "substAll al s = substAll al' s"
proof (induction s rule: length_induct)
  case (1 s)
  show ?case
  proof (cases "s = []")
    case True
    then show ?thesis by (simp add: substAll_Nil)
  next
    case False
    show ?thesis
    proof (cases "tokenAt al s")
      case None
      then have "substAll al s = hd s # substAll al (tl s)" "substAll al' s = hd s # substAll al' (tl s)"
        using False assms [of s] by (simp_all add: substAll.simps [of _ s])
      moreover have "substAll al (tl s) = substAll al' (tl s)"
        using "1.IH" False by (simp add: less_Suc_eq_le)
      ultimately show ?thesis by simp
    next
      case (Some p)
      then have ne: "fst p \<noteq> []"
        by (auto simp: tokenAt_def find_Some_iff)
      from Some have "substAll al s = snd p @ substAll al (drop (length (fst p)) s)"
        "substAll al' s = snd p @ substAll al' (drop (length (fst p)) s)"
        using False assms [of s] by (simp_all add: substAll.simps [of _ s])
      moreover have "substAll al (drop (length (fst p)) s) = substAll al' (drop (length (fst p)) s)"
        using "1.IH" False ne by simp
      ultimately show ?thesis by simp
    qed
  qed
qed

lemma substAll_empty: "substAll [] s = s"
proof (induction s)
  case Nil
  show ?case by (simp add: substAll_Nil)
next
  case (Cons c s)
  have "tokenAt [] (c # s) = None" by (simp add: tokenAt_def)
  then show ?case by (simp add: substAll_None Cons.IH)
qed

lemma find_app:
  "find P (xs @ ys) = (case find P xs of Some x \<Rightarrow> Some x | None \<Rightarrow> find P ys)"
  by (induction xs) simp_all

lemma tokenAt_append:
  "tokenAt (al1 @ al2) s = (case tokenAt al1 s of Some p \<Rightarrow> Some p | None \<Rightarrow> tokenAt al2 s)"
  unfolding tokenAt_def by (rule find_app)

lemma tokenAt_member:
  assumes "tokenAt al s = Some p"
  shows "p \<in> set al \<and> prefix (fst p) s"
  using assms by (auto simp: tokenAt_def find_Some_iff)

lemma tokenAt_commute:
  assumes "tokenKeys al1" and "tokenKeys al2" and "fst ` set al1 \<inter> fst ` set al2 = {}"
  shows "tokenAt (al1 @ al2) s = tokenAt (al2 @ al1) s"
proof (cases "tokenAt al1 s")
  case None
  then show ?thesis by (cases "tokenAt al2 s") (simp_all add: tokenAt_append)
next
  case s1: (Some p1)
  show ?thesis
  proof (cases "tokenAt al2 s")
    case None
    then show ?thesis by (simp add: tokenAt_append s1)
  next
    case (Some p2)
    from tokenAt_member [OF s1] tokenAt_member [OF Some]
    have m: "p1 \<in> set al1" "prefix (fst p1) s" "p2 \<in> set al2" "prefix (fst p2) s" by simp_all
    with assms(1,2) have "isToken (fst p1)" "isToken (fst p2)"
      by (simp_all add: tokenKeys_def list_all_iff)
    from tokens_prefix_same [OF this m(2) m(4)] have "fst p1 = fst p2" .
    with m(1,3) assms(3) show ?thesis by blast
  qed
qed

lemma tokenAt_twice: "tokenAt (al @ al) s = tokenAt al s"
  by (cases "tokenAt al s") (simp_all add: tokenAt_append)

lemma replaceAll_absent:
  "\<not> strIncludes s tok \<Longrightarrow> replaceAll tok w pre s = s"
proof (induction s arbitrary: pre)
  case Nil
  show ?case by (simp add: replaceAll_Nil)
next
  case (Cons c s)
  then have "\<not> prefix tok (c # s)" "\<not> strIncludes s tok" by simp_all
  then show ?case by (simp add: replaceAll_skip Cons.IH)
qed


lemma replaceEach_substituted:
  "tokenKeys ps \<Longrightarrow> list_all (\<lambda>p. plainText (snd p)) ps \<Longrightarrow> tokenKeys al
   \<Longrightarrow> list_all (\<lambda>p. LBRACE \<notin> set (snd p)) al \<Longrightarrow> noNesting b s
   \<Longrightarrow> foldl (\<lambda>t p. replace (fst p) (snd p) t) (substAll al s) ps = substAll (al @ ps) s"
proof (induction ps arbitrary: al)
  case Nil
  show ?case by simp
next
  case (Cons p ps)
  from Cons.prems have tok: "isToken (fst p)" and w: "DOLLAR \<notin> set (snd p)"
    and br: "LBRACE \<notin> set (snd p)"
    by (simp_all add: tokenKeys_def plainText_def)
  have "replace (fst p) (snd p) (substAll al s) = substAll (al @ [(fst p, snd p)]) s"
    unfolding replace_def
    using tok Cons.prems(3) Cons.prems(4) w Cons.prems(5) by (rule replace_in_substituted)
  then have "foldl (\<lambda>t p. replace (fst p) (snd p) t) (substAll al s) (p # ps)
               = foldl (\<lambda>t p. replace (fst p) (snd p) t) (substAll (al @ [p]) s) ps"
    by simp
  also have "\<dots> = substAll ((al @ [p]) @ ps) s"
  proof (rule Cons.IH)
    show "tokenKeys ps" using Cons.prems(1) by (simp add: tokenKeys_def)
    show "list_all (\<lambda>p. plainText (snd p)) ps" using Cons.prems(2) by simp
    show "tokenKeys (al @ [p])" using Cons.prems(3) tok by (simp add: tokenKeys_def)
    show "list_all (\<lambda>p. LBRACE \<notin> set (snd p)) (al @ [p])" using Cons.prems(4) br by simp
    show "noNesting b s" by (rule Cons.prems(5))
  qed
  finally show ?case by simp
qed

lemma ehrPairs_keys: "tokenKeys (ehrPairs tm)"
  by (simp add: tokenKeys_def ehrPairs_def isToken_def)

lemma profilePairs_keys: "tokenKeys (profilePairs sc)"
  by (simp add: tokenKeys_def profilePairs_def Let_def isToken_def)

lemma pairs_disjoint: "fst ` set (profilePairs sc) \<inter> fst ` set (ehrPairs tm) = {}"
  by (simp add: profilePairs_def ehrPairs_def Let_def)

lemma applyTerms_foldl:
  "applyTerms tm t = foldl (\<lambda>t p. replace (fst p) (snd p) t) t (ehrPairs tm)"
  by (simp add: applyTerms_def ehrPairs_def)

lemma resolveTemplateVars_foldl:
  "resolveTemplateVars t sc = foldl (\<lambda>t p. replace (fst p) (snd p) t) t (profilePairs sc)"
  by (simp add: resolveTemplateVars_def profilePairs_def Let_def)

lemma plain_no_brace:
  "list_all (\<lambda>p. plainText (snd p)) al \<Longrightarrow> list_all (\<lambda>p. LBRACE \<notin> set (snd p)) al"
  by (induction al) (simp_all add: plainText_def)

lemma applyTerms_substituted:
  assumes "plainTerms tm" and "tokenKeys al" and "list_all (\<lambda>p. LBRACE \<notin> set (snd p)) al"
    and "noNesting b s"
  shows "applyTerms tm (substAll al s) = substAll (al @ ehrPairs tm) s"
  unfolding applyTerms_foldl
  using ehrPairs_keys assms(1) [unfolded plainTerms_def] assms(2,3,4)
  by (rule replaceEach_substituted)

lemma resolveTemplateVars_substituted:
  assumes "plainProfile sc" and "tokenKeys al" and "list_all (\<lambda>p. LBRACE \<notin> set (snd p)) al"
    and "noNesting b s"
  shows "resolveTemplateVars (substAll al s) sc = substAll (al @ profilePairs sc) s"
  unfolding resolveTemplateVars_foldl
  using profilePairs_keys assms(1) [unfolded plainProfile_def] assms(2,3,4)
  by (rule replaceEach_substituted)

lemma applyTerms_substAll:
  assumes "plainTerms tm" and "noNesting b s"
  shows "applyTerms tm s = substAll (ehrPairs tm) s"
  using applyTerms_substituted [OF assms(1) _ _ assms(2), of "[]"]
  by (simp add: substAll_empty tokenKeys_def)

lemma resolveTemplateVars_substAll:
  assumes "plainProfile sc" and "noNesting b s"
  shows "resolveTemplateVars s sc = substAll (profilePairs sc) s"
  using resolveTemplateVars_substituted [OF assms(1) _ _ assms(2), of "[]"]
  by (simp add: substAll_empty tokenKeys_def)

lemma passes_commute:
  assumes "plainTerms tm" and "plainProfile sc" and "noNesting b s"
  shows "applyTerms tm (resolveTemplateVars s sc) = substAll (profilePairs sc @ ehrPairs tm) s"
    and "resolveTemplateVars (applyTerms tm s) sc = substAll (profilePairs sc @ ehrPairs tm) s"
proof -
  have pb: "list_all (\<lambda>p. LBRACE \<notin> set (snd p)) (profilePairs sc)"
    using assms(2) by (simp add: plainProfile_def plain_no_brace)
  have eb: "list_all (\<lambda>p. LBRACE \<notin> set (snd p)) (ehrPairs tm)"
    using assms(1) by (simp add: plainTerms_def plain_no_brace)
  show "applyTerms tm (resolveTemplateVars s sc) = substAll (profilePairs sc @ ehrPairs tm) s"
    using applyTerms_substituted [OF assms(1) profilePairs_keys pb assms(3)]
    by (simp add: resolveTemplateVars_substAll [OF assms(2,3)])
  have "resolveTemplateVars (applyTerms tm s) sc = substAll (ehrPairs tm @ profilePairs sc) s"
    using resolveTemplateVars_substituted [OF assms(2) ehrPairs_keys eb assms(3)]
    by (simp add: applyTerms_substAll [OF assms(1,3)])
  also have "\<dots> = substAll (profilePairs sc @ ehrPairs tm) s"
  proof (rule substAll_cong)
    fix s'
    show "tokenAt (ehrPairs tm @ profilePairs sc) s' = tokenAt (profilePairs sc @ ehrPairs tm) s'"
      using tokenAt_commute [OF profilePairs_keys ehrPairs_keys pairs_disjoint] by simp
  qed
  finally show "resolveTemplateVars (applyTerms tm s) sc = substAll (profilePairs sc @ ehrPairs tm) s" .
qed

lemma applyTerms_idem:
  assumes "plainTerms tm" and "noNesting b s"
  shows "applyTerms tm (applyTerms tm s) = applyTerms tm s"
proof -
  have eb: "list_all (\<lambda>p. LBRACE \<notin> set (snd p)) (ehrPairs tm)"
    using assms(1) by (simp add: plainTerms_def plain_no_brace)
  have "applyTerms tm (applyTerms tm s) = substAll (ehrPairs tm @ ehrPairs tm) s"
    using applyTerms_substituted [OF assms(1) ehrPairs_keys eb assms(2)]
    by (simp add: applyTerms_substAll [OF assms])
  also have "\<dots> = substAll (ehrPairs tm) s"
    by (rule substAll_cong) (rule tokenAt_twice)
  finally show ?thesis by (simp add: applyTerms_substAll [OF assms])
qed

lemma applyTerms_absent:
  assumes "\<forall>tok \<in> set ehrTokens. \<not> strIncludes s tok"
  shows "applyTerms tm s = s"
  using assms by (simp add: applyTerms_def replace_def ehrTokens_def replaceAll_absent)

section \<open>The two substitution passes\<close>

text \<open>
  C6, as stated, fails. With the text \<open>{flow{diagnosis}sheet}\<close> and a scenario without
  patient profile, the profile pass first removes \<open>{diagnosis}\<close> and leaves the token
  \<open>{flowsheet}\<close>, which the terminology pass then replaces; in the other order the
  terminology pass finds no token and the result is the text \<open>{flowsheet}\<close>. With a chief
  complaint that mentions \<open>{flowsheet}\<close>, the text \<open>{chiefComplaint}\<close> is resolved to the
  vendor's term in one order and keeps the token in the other. With a diagnosis and a
  flowsheet term that both stand for the text before the match, the text
  \<open>{flowsheet}{diagnosis}\<close> becomes \<open>{flowsheet}\<close> in one order and the empty text in
  the other.
\<close>

theorem substitution_order_counterexample:
  "ehrAfterProfile ex_td ''{flow{diagnosis}sheet}'' ex_scenario ''Epic'' = Some ''Flowsheet''
   \<and> profileAfterEhr ex_td ''{flow{diagnosis}sheet}'' ex_scenario ''Epic'' = Some ''{flowsheet}''
   \<and> ehrAfterProfile ex_td ''{chiefComplaint}'' ex_scenario_token ''Epic'' = Some ''see Flowsheet''
   \<and> profileAfterEhr ex_td ''{chiefComplaint}'' ex_scenario_token ''Epic'' = Some ''see {flowsheet}''
   \<and> ehrAfterProfile ex_td_pre ''{flowsheet}{diagnosis}'' ex_scenario_pre ''Epic'' = Some ''{flowsheet}''
   \<and> profileAfterEhr ex_td_pre ''{flowsheet}{diagnosis}'' ex_scenario_pre ''Epic'' = Some []"
  by code_simp

text \<open>
  C6, amended: for a text in which no opening brace follows another one before a closing
  brace, profile values and vendor terms that contain neither an opening brace nor a
  dollar sign, and a vendor whose terms are found (under its own key or under Epic), the
  profile pass followed by the terminology pass gives the same text as the terminology
  pass followed by the profile pass, namely the text in which the thirteen tokens are
  replaced in one pass from left to right. A step row of the plan holds the action and the
  expected result after the profile pass and then the terminology pass.
\<close>

theorem substitution_order:
  assumes "ehrTerms td e = Some tm" and "plainTerms tm" and "plainProfile sc"
    and "noNesting False text"
  shows "ehrAfterProfile td text sc e = Some (substAll (profilePairs sc @ ehrPairs tm) text)
     \<and> profileAfterEhr td text sc e = ehrAfterProfile td text sc e
     \<and> stepLoop td e sc sec [s] st
         = Some (push [JNum (Suc (stepNum st)), JStr sec, JStr (scenario_name sc),
                       JStr (roleLabel td (step_role s)),
                       JStr (applyTerms tm (resolveTemplateVars (action s) sc)),
                       JStr (applyTerms tm (resolveTemplateVars (expected s) sc)),
                       JStr [], JStr [], JStr []] (incr st))"
proof (intro conjI)
  show a: "ehrAfterProfile td text sc e = Some (substAll (profilePairs sc @ ehrPairs tm) text)"
    using assms(1) passes_commute(1) [OF assms(2,3,4)]
    by (simp add: ehrAfterProfile_def resolveEhrTerms_def)
  show "profileAfterEhr td text sc e = ehrAfterProfile td text sc e"
    using assms(1) passes_commute(2) [OF assms(2,3,4)]
    by (simp add: a profileAfterEhr_def resolveEhrTerms_def)
  show "stepLoop td e sc sec [s] st
         = Some (push [JNum (Suc (stepNum st)), JStr sec, JStr (scenario_name sc),
                       JStr (roleLabel td (step_role s)),
                       JStr (applyTerms tm (resolveTemplateVars (action s) sc)),
                       JStr (applyTerms tm (resolveTemplateVars (expected s) sc)),
                       JStr [], JStr [], JStr []] (incr st))"
    using assms(1) by (simp add: resolveEhrTerms_def Let_def incr_def)
qed

theorem substitution_order_witness:
  "ehrTerms ex_td ''Cerner'' = Some ex_terms_epic \<and> plainTerms ex_terms_epic
   \<and> plainProfile ex_scenario_plain \<and> noNesting False ''Open {flowsheet} for {chiefComplaint}''
   \<and> ehrAfterProfile ex_td ''Open {flowsheet} for {chiefComplaint}'' ex_scenario_plain ''Cerner''
       = Some ''Open Flowsheet for fever''
   \<and> profileAfterEhr ex_td ''Open {flowsheet} for {chiefComplaint}'' ex_scenario_plain ''Cerner''
       = Some ''Open Flowsheet for fever''"
proof -
  have h1: "ehrTerms ex_td ''Cerner'' = Some ex_terms_epic" by code_simp
  have h2: "plainTerms ex_terms_epic" by code_simp
  have h3: "plainProfile ex_scenario_plain" by code_simp
  have h4: "noNesting False ''Open {flowsheet} for {chiefComplaint}''" by code_simp
  have v: "ehrAfterProfile ex_td ''Open {flowsheet} for {chiefComplaint}'' ex_scenario_plain ''Cerner''
             = Some ''Open Flowsheet for fever''"
    by code_simp
  from substitution_order [OF h1 h2 h3 h4]
  have "profileAfterEhr ex_td ''Open {flowsheet} for {chiefComplaint}'' ex_scenario_plain ''Cerner''
          = ehrAfterProfile ex_td ''Open {flowsheet} for {chiefComplaint}'' ex_scenario_plain ''Cerner''"
    by blast
  with h1 h2 h3 h4 v show ?thesis by simp
qed

section \<open>The terminology resolver applied twice\<close>

text \<open>
  C7, as stated, fails. With the alert term \<open>Flag\<close>, the text \<open>{alert{alertFlag}}\<close> is
  resolved to \<open>{alertFlag}\<close>, and resolving that again gives \<open>Flag\<close>. With a flowsheet
  term that stands for the match followed by the text before it, each further pass adds
  a letter to \<open>a{flowsheet}\<close>. A token whose term is missing from the vendor's entry is
  replaced by the text \<open>undefined\<close>, and with a table that has no entry for the vendor
  and none for Epic the resolver fails.
\<close>

theorem resolver_twice_counterexample:
  "resolveEhrTerms ex_td_flag ''{alert{alertFlag}}'' ''Epic'' = Some ''{alertFlag}''
   \<and> resolveTwice ex_td_flag ''{alert{alertFlag}}'' ''Epic'' = Some ''Flag''
   \<and> resolveEhrTerms ex_td_match ''a{flowsheet}'' ''Epic'' = Some ''a{flowsheet}a''
   \<and> resolveTwice ex_td_match ''a{flowsheet}'' ''Epic'' = Some ''a{flowsheet}aa''
   \<and> resolveEhrTerms ex_td_partial ''Open {flowsheet}'' ''Epic'' = Some ''Open undefined''
   \<and> resolveEhrTerms ex_td_empty ''Open'' ''Cerner'' = None"
  by code_simp

text \<open>
  C7, amended: the resolver is a function of the table, the text and the vendor key. A
  vendor key without entry is resolved with the entry of Epic. When the terms are found,
  the resolver returns a text; a text that contains none of the six tokens is returned as
  it is; and for terms that contain neither an opening brace nor a dollar sign and a text
  in which no opening brace follows another one before a closing brace, resolving the
  result again returns the same result.
\<close>

theorem resolver_idempotent:
  assumes "ehrTerms td e = Some tm"
  shows "resolveEhrTerms td text e = Some (applyTerms tm text)
     \<and> (ehrTerminology td e = None \<longrightarrow> resolveEhrTerms td text e = resolveEhrTerms td text ''Epic'')
     \<and> (list_all (\<lambda>tok. \<not> strIncludes text tok) ehrTokens \<longrightarrow> resolveEhrTerms td text e = Some text)
     \<and> (plainTerms tm \<and> noNesting False text \<longrightarrow> resolveTwice td text e = resolveEhrTerms td text e)"
proof (intro conjI impI)
  show r: "resolveEhrTerms td text e = Some (applyTerms tm text)"
    using assms by (simp add: resolveEhrTerms_def)
  show "resolveEhrTerms td text e = resolveEhrTerms td text ''Epic''"
    if "ehrTerminology td e = None"
    using that by (simp add: resolveEhrTerms_def ehrTerms_def split: option.splits)
  show "resolveEhrTerms td text e = Some text"
    if "list_all (\<lambda>tok. \<not> strIncludes text tok) ehrTokens"
    using that applyTerms_absent [of "text" tm] by (simp add: r list_all_iff)
  show "resolveTwice td text e = resolveEhrTerms td text e"
    if "plainTerms tm \<and> noNesting False text"
    using that assms applyTerms_idem [of tm False "text"]
    by (simp add: resolveTwice_def resolveEhrTerms_def)
qed

theorem resolver_idempotent_witness:
  "ehrTerms ex_td ''Cerner'' = Some ex_terms_epic \<and> ehrTerminology ex_td ''Cerner'' = None
   \<and> plainTerms ex_terms_epic \<and> noNesting False ''Open {flowsheet} and {other}''
   \<and> resolveEhrTerms ex_td ''Open {flowsheet} and {other}'' ''Cerner'' = Some ''Open Flowsheet and {other}''
   \<and> resolveEhrTerms ex_td ''Open {flowsheet} and {other}'' ''Epic'' = Some ''Open Flowsheet and {other}''
   \<and> resolveTwice ex_td ''Open {flowsheet} and {other}'' ''Cerner'' = Some ''Open Flowsheet and {other}''
   \<and> list_all (\<lambda>tok. \<not> strIncludes ''See {other}'' tok) ehrTokens
   \<and> resolveEhrTerms ex_td ''See {other}'' ''Cerner'' = Some ''See {other}''"
proof -
  have h1: "ehrTerms ex_td ''Cerner'' = Some ex_terms_epic" by code_simp
  have h2: "ehrTerminology ex_td ''Cerner'' = None" by code_simp
  have h3: "plainTerms ex_terms_epic" by code_simp
  have h4: "noNesting False ''Open {flowsheet} and {other}''" by code_simp
  have h5: "list_all (\<lambda>tok. \<not> strIncludes ''See {other}'' tok) ehrTokens" by code_simp
  have v: "resolveEhrTerms ex_td ''Open {flowsheet} and {other}'' ''Cerner''
             = Some ''Open Flowsheet and {other}''"
    by code_simp
  from resolver_idempotent [OF h1, of "''Open {flowsheet} and {other}''"] h2 h3 h4
  have a: "resolveEhrTerms ex_td ''Open {flowsheet} and {other}'' ''Cerner''
             = resolveEhrTerms ex_td ''Open {flowsheet} and {other}'' ''Epic''"
    and b: "resolveTwice ex_td ''Open {flowsheet} and {other}'' ''Cerner''
             = resolveEhrTerms ex_td ''Open {flowsheet} and {other}'' ''Cerner''"
    by blast+
  from resolver_idempotent [OF h1, of "''See {other}''"] h5
  have c: "resolveEhrTerms ex_td ''See {other}'' ''Cerner'' = Some ''See {other}''"
    by blast
  from h1 h2 h3 h4 h5 v a b c show ?thesis by simp
qed


end
